theory Spec2Isabelle
  imports Complex_Main "HOL-Library.AList"
begin

section \<open>Coordinates, directions and the grid (entities/grid.py, entities/snake.py)\<close>

text \<open>
  \<^verbatim>\<open>SquareCoord\<close> is a pair of Python integers compared by value; the grid is a
  width, a height and a set of occupied cells.
\<close>

datatype SquareCoord = SquareCoord (cx: int) (cy: int)

datatype Direction = UP | DOWN | LEFT | RIGHT

fun get_dx_dy :: "Direction \<Rightarrow> int \<times> int" where
  "get_dx_dy UP = (0, -1)"
| "get_dx_dy DOWN = (0, 1)"
| "get_dx_dy LEFT = (-1, 0)"
| "get_dx_dy RIGHT = (1, 0)"

record Grid =
  width :: int
  height :: int
  occupied_cells :: "SquareCoord set"

definition is_valid_position :: "Grid \<Rightarrow> SquareCoord \<Rightarrow> bool" where
  "is_valid_position g c \<longleftrightarrow> 0 \<le> cx c \<and> cx c < width g \<and> 0 \<le> cy c \<and> cy c < height g"

definition is_occupied :: "Grid \<Rightarrow> SquareCoord \<Rightarrow> bool" where
  "is_occupied g c \<longleftrightarrow> c \<in> occupied_cells g"

definition occupy :: "SquareCoord \<Rightarrow> Grid \<Rightarrow> Grid" where
  "occupy c g = g\<lparr>occupied_cells := insert c (occupied_cells g)\<rparr>"

definition vacate :: "SquareCoord \<Rightarrow> Grid \<Rightarrow> Grid" where
  "vacate c g = g\<lparr>occupied_cells := occupied_cells g - {c}\<rparr>"

text \<open>\<^verbatim>\<open>get_neighbors\<close>: up, down, left, right, in this order, in-bounds ones only.\<close>

definition get_neighbors :: "Grid \<Rightarrow> SquareCoord \<Rightarrow> SquareCoord list" where
  "get_neighbors g c =
     filter (is_valid_position g)
       (map (\<lambda>(dx, dy). SquareCoord (cx c + dx) (cy c + dy)) [(0, -1), (0, 1), (-1, 0), (1, 0)])"

section \<open>The snake (entities/snake.py)\<close>

text \<open>
  The fields of \<^verbatim>\<open>AISnake.__init__\<close> that the simulation reads; a player snake has none.
  Python floats are modelled as exact rationals.
\<close>

datatype AIPersonality = AGGRESSIVE | CAUTIOUS | BALANCED | RANDOM

record AIFields =
  personality :: AIPersonality
  difficulty :: rat
  current_target :: "SquareCoord option"
  current_path :: "SquareCoord list"
  pathfinding_cooldown :: rat
  last_update_time :: rat
  decision_delay :: rat
  mistake_chance :: rat

record Snake =
  segments :: "SquareCoord list"
  direction :: Direction
  next_direction :: Direction
  growth_pending :: int
  snake_id :: "string option"
  ai :: "AIFields option"

text \<open>\<^verbatim>\<open>_create_initial_segments\<close>: \<^verbatim>\<open>length\<close> cells from the head backwards.\<close>

definition create_initial_segments :: "SquareCoord \<Rightarrow> Direction \<Rightarrow> nat \<Rightarrow> SquareCoord list" where
  "create_initial_segments start d len =
     (let (dx, dy) = get_dx_dy d
      in map (\<lambda>i. SquareCoord (cx start - dx * int i) (cy start - dy * int i)) [0..<len])"

definition Snake_init :: "SquareCoord \<Rightarrow> Direction \<Rightarrow> nat \<Rightarrow> Snake" where
  "Snake_init start_position start_direction start_length =
     \<lparr>segments = create_initial_segments start_position start_direction start_length,
      direction = start_direction, next_direction = start_direction,
      growth_pending = 0, snake_id = None, ai = None\<rparr>"

definition get_head :: "Snake \<Rightarrow> SquareCoord option" where
  "get_head s = (case segments s of [] \<Rightarrow> None | h # _ \<Rightarrow> Some h)"

text \<open>\<^verbatim>\<open>set_direction\<close> returns its flag and the snake, which it changes only on success.\<close>

definition set_direction :: "Direction \<Rightarrow> Snake \<Rightarrow> bool \<times> Snake" where
  "set_direction new_direction s =
     (let (dx, dy) = get_dx_dy (direction s);
          (new_dx, new_dy) = get_dx_dy new_direction
      in if dx + new_dx = 0 \<and> dy + new_dy = 0 then (False, s)
         else (True, s\<lparr>next_direction := new_direction\<rparr>))"

text \<open>The 180-degree reversal the specification speaks of.\<close>

fun opposite :: "Direction \<Rightarrow> Direction" where
  "opposite UP = DOWN"
| "opposite DOWN = UP"
| "opposite LEFT = RIGHT"
| "opposite RIGHT = LEFT"

text \<open>\<^verbatim>\<open>Snake.move\<close>: returns the vacated tail cell, or \<^verbatim>\<open>None\<close> when growing or empty.\<close>

definition move :: "Snake \<Rightarrow> SquareCoord option \<times> Snake" where
  "move s =
     (case segments s of
        [] \<Rightarrow> (None, s)
      | head # _ \<Rightarrow>
          (let s1 = s\<lparr>direction := next_direction s\<rparr>;
               (dx, dy) = get_dx_dy (direction s1);
               new_head = SquareCoord (cx head + dx) (cy head + dy);
               segs = new_head # segments s
           in if growth_pending s > 0
              then (None, s1\<lparr>segments := segs, growth_pending := growth_pending s - 1\<rparr>)
              else (Some (last segs), s1\<lparr>segments := butlast segs\<rparr>)))"

definition grow :: "int \<Rightarrow> Snake \<Rightarrow> Snake" where
  "grow amount s = s\<lparr>growth_pending := growth_pending s + amount\<rparr>"

definition check_self_collision :: "Snake \<Rightarrow> bool" where
  "check_self_collision s =
     (if length (segments s) < 4 then False
      else (case segments s of [] \<Rightarrow> False | head # body \<Rightarrow> head \<in> set body))"

definition occupies_position :: "Snake \<Rightarrow> SquareCoord \<Rightarrow> bool" where
  "occupies_position s c \<longleftrightarrow> c \<in> set (segments s)"

section \<open>The AI snake (ai/ai_snake.py)\<close>

text \<open>
  \<^verbatim>\<open>AISnake.__init__\<close>; \<^verbatim>\<open>now\<close> is the value of \<^verbatim>\<open>time.time()\<close>. The base constructor is
  called with the default length 3.
\<close>

definition AISnake_init ::
    "SquareCoord \<Rightarrow> Direction \<Rightarrow> AIPersonality \<Rightarrow> rat \<Rightarrow> string \<Rightarrow> rat \<Rightarrow> Snake" where
  "AISnake_init start_position start_direction pers diff sid now =
     (Snake_init start_position start_direction 3)
       \<lparr>snake_id := Some sid,
        ai := Some \<lparr>personality = pers,
                    difficulty = max (1 / 10) (min 1 diff),
                    current_target = None,
                    current_path = [],
                    pathfinding_cooldown = 0,
                    last_update_time = now,
                    decision_delay = 1 / 10,
                    mistake_chance = 1 - diff\<rparr>\<rparr>"

definition set_difficulty :: "rat \<Rightarrow> AIFields \<Rightarrow> AIFields" where
  "set_difficulty diff a =
     (let d = max (1 / 10) (min 1 diff)
      in a\<lparr>difficulty := d, mistake_chance := 1 - d, decision_delay := 2 / 10 - d * (15 / 100)\<rparr>)"

text \<open>
  \<^verbatim>\<open>_get_danger_positions\<close>. The argument lists the obstacle set in the order the
  runtime iterates it.
\<close>

definition get_danger_positions :: "SquareCoord list \<Rightarrow> SquareCoord list" where
  "get_danger_positions obstacles =
     concat (map (\<lambda>obstacle.
       concat (map (\<lambda>dx.
         concat (map (\<lambda>dy.
           (let danger_pos = SquareCoord (cx obstacle + dx) (cy obstacle + dy)
            in if danger_pos \<notin> set obstacles then [danger_pos] else []))
           [-1, 0, 1]))
         [-1, 0, 1]))
       obstacles)"

text \<open>
  \<^verbatim>\<open>AISnake.move\<close>: drop a reached waypoint, clear a reached target, then move as a
  plain snake. \<^verbatim>\<open>snake_move\<close> is the dynamic dispatch of \<^verbatim>\<open>snake.move()\<close>.
\<close>

definition AISnake_move :: "AIFields \<Rightarrow> Snake \<Rightarrow> SquareCoord option \<times> Snake" where
  "AISnake_move a s =
     (let a1 = (case current_path a of
                  [] \<Rightarrow> a
                | p # rest \<Rightarrow> if get_head s = Some p then a\<lparr>current_path := rest\<rparr> else a);
          a2 = (if current_target a1 \<noteq> None \<and> get_head s = current_target a1
                then a1\<lparr>current_target := None\<rparr> else a1)
      in move (s\<lparr>ai := Some a2\<rparr>))"

definition snake_move :: "Snake \<Rightarrow> SquareCoord option \<times> Snake" where
  "snake_move s = (case ai s of None \<Rightarrow> move s | Some a \<Rightarrow> AISnake_move a s)"

section \<open>Food (entities/food.py) and random empty cells (entities/grid.py)\<close>

record Food =
  position :: SquareCoord
  food_type :: string
  point_value :: int

text \<open>
  \<^verbatim>\<open>get_random_empty_cell\<close>; \<^verbatim>\<open>k\<close> stands for the draw of \<^verbatim>\<open>random.choice\<close>, which
  selects the element of index \<^verbatim>\<open>k mod len\<close>.
\<close>

definition empty_cells :: "Grid \<Rightarrow> SquareCoord list" where
  "empty_cells g =
     concat (map (\<lambda>x. concat (map (\<lambda>y. if is_occupied g (SquareCoord x y) then [] else [SquareCoord x y])
                                 (map int [0..<nat (height g)])))
                 (map int [0..<nat (width g)]))"

definition get_random_empty_cell :: "nat \<Rightarrow> Grid \<Rightarrow> SquareCoord option" where
  "get_random_empty_cell k g =
     (if int (card (occupied_cells g)) \<ge> width g * height g then None
      else (case empty_cells g of [] \<Rightarrow> None | c # cs \<Rightarrow> Some ((c # cs) ! (k mod length (c # cs)))))"

definition spawn_food :: "nat \<Rightarrow> Grid \<Rightarrow> Food option" where
  "spawn_food k g =
     (case get_random_empty_cell k g of
        None \<Rightarrow> None
      | Some empty_position \<Rightarrow> Some \<lparr>position = empty_position, food_type = ''apple'', point_value = 10\<rparr>)"

section \<open>The multi-snake game (ai/multi_snake.py)\<close>

datatype GameMode = SURVIVAL | SCORE_RACE | FREE_FOR_ALL | COOPERATIVE

datatype CollisionType = WALL | SELF | SNAKE | FOOD

text \<open>A collision event without its wall-clock timestamp and the name derived from it.\<close>

record CollisionEvent =
  event_snake_id :: string
  collision_type :: CollisionType
  event_position :: SquareCoord
  other_snake_id :: "string option"

datatype error = KeyError

text \<open>
  The game object. \<^verbatim>\<open>snakes\<close> is a dictionary iterated in insertion order, so it is an
  association list with distinct keys; \<^verbatim>\<open>scores\<close> is only looked up, so it is a map.
\<close>

record MultiSnakeGame =
  grid :: Grid
  game_mode :: GameMode
  snakes :: "(string \<times> Snake) list"
  food_items :: "Food list"
  collision_events :: "CollisionEvent list"
  game_time :: rat
  time_limit :: "rat option"
  scores :: "string \<rightharpoonup> int"
  active_snakes :: "string set"
  eliminated_snakes :: "string set"
  max_food_items :: int
  food_spawn_rate :: rat

definition MultiSnakeGame_init :: "Grid \<Rightarrow> GameMode \<Rightarrow> MultiSnakeGame" where
  "MultiSnakeGame_init gr m =
     \<lparr>grid = gr, game_mode = m, snakes = [], food_items = [], collision_events = [],
      game_time = 0, time_limit = None, scores = Map.empty, active_snakes = {},
      eliminated_snakes = {}, max_food_items = 5, food_spawn_rate = 1 / 10\<rparr>"

definition snake_ids :: "MultiSnakeGame \<Rightarrow> string set" where
  "snake_ids g = fst ` set (snakes g)"

definition add_player_snake ::
    "string \<Rightarrow> SquareCoord \<Rightarrow> Direction \<Rightarrow> MultiSnakeGame \<Rightarrow> bool \<times> MultiSnakeGame" where
  "add_player_snake sid start_position start_direction g =
     (if sid \<in> snake_ids g then (False, g)
      else if \<not> is_valid_position (grid g) start_position then (False, g)
      else (let snake = (Snake_init start_position start_direction 3)\<lparr>snake_id := Some sid\<rparr>
            in (True, g\<lparr>snakes := AList.update sid snake (snakes g),
                        scores := (scores g)(sid \<mapsto> 0),
                        active_snakes := insert sid (active_snakes g)\<rparr>)))"

definition add_ai_snake ::
    "string \<Rightarrow> SquareCoord \<Rightarrow> AIPersonality \<Rightarrow> rat \<Rightarrow> rat \<Rightarrow> MultiSnakeGame \<Rightarrow> bool \<times> MultiSnakeGame" where
  "add_ai_snake sid start_position pers diff now g =
     (if sid \<in> snake_ids g then (False, g)
      else if \<not> is_valid_position (grid g) start_position then (False, g)
      else (let ai_snake = AISnake_init start_position RIGHT pers diff sid now
            in (True, g\<lparr>snakes := AList.update sid ai_snake (snakes g),
                        scores := (scores g)(sid \<mapsto> 0),
                        active_snakes := insert sid (active_snakes g)\<rparr>)))"

definition remove_snake :: "string \<Rightarrow> MultiSnakeGame \<Rightarrow> bool \<times> MultiSnakeGame" where
  "remove_snake sid g =
     (if sid \<notin> snake_ids g then (False, g)
      else (True, g\<lparr>active_snakes := active_snakes g - {sid},
                    eliminated_snakes := insert sid (eliminated_snakes g)\<rparr>))"

definition set_time_limit :: "rat \<Rightarrow> MultiSnakeGame \<Rightarrow> MultiSnakeGame" where
  "set_time_limit t g = g\<lparr>time_limit := Some t\<rparr>"


definition set_food_spawn_rate :: "rat \<Rightarrow> MultiSnakeGame \<Rightarrow> MultiSnakeGame" where
  "set_food_spawn_rate spawn_rate g = g\<lparr>food_spawn_rate := max 0 (min 1 spawn_rate)\<rparr>"

text \<open>
  \<^verbatim>\<open>_handle_snake_elimination\<close>: the sets are changed first, then \<^verbatim>\<open>self.snakes[snake_id]\<close>
  is looked up, which raises \<^verbatim>\<open>KeyError\<close> for an unknown id.
\<close>

definition handle_snake_elimination :: "string \<Rightarrow> MultiSnakeGame \<Rightarrow> error + MultiSnakeGame" where
  "handle_snake_elimination sid g =
     (let g1 = g\<lparr>active_snakes := active_snakes g - {sid},
                 eliminated_snakes := insert sid (eliminated_snakes g)\<rparr>
      in case map_of (snakes g1) sid of
           None \<Rightarrow> Inl KeyError
         | Some snake \<Rightarrow> Inr (g1\<lparr>grid := foldl (\<lambda>gr segment. vacate segment gr) (grid g1) (segments snake)\<rparr>))"

text \<open>\<^verbatim>\<open>_handle_snake_collision\<close>: an if/elif chain over three of the four modes.\<close>

definition handle_snake_collision ::
    "string \<Rightarrow> string \<Rightarrow> SquareCoord \<Rightarrow> MultiSnakeGame \<Rightarrow> error + MultiSnakeGame" where
  "handle_snake_collision snake1_id snake2_id collision_pos g =
     (if game_mode g = SURVIVAL then
        (case handle_snake_elimination snake1_id g of
           Inl e \<Rightarrow> Inl e
         | Inr g1 \<Rightarrow> handle_snake_elimination snake2_id g1)
      else if game_mode g = FREE_FOR_ALL then
        (case map_of (snakes g) snake1_id of
           None \<Rightarrow> Inl KeyError
         | Some snake1 \<Rightarrow>
             if get_head snake1 = Some collision_pos then handle_snake_elimination snake1_id g
             else Inr g)
      else if game_mode g = COOPERATIVE then Inr g
      else Inr g)"

text \<open>A loop body that may raise, run over a list: the first error ends the loop.\<close>

fun fold_err :: "('s \<Rightarrow> 'a \<Rightarrow> error + 's) \<Rightarrow> 's \<Rightarrow> 'a list \<Rightarrow> error + 's" where
  "fold_err f s [] = Inr s"
| "fold_err f s (x # xs) = (case f s x of Inl e \<Rightarrow> Inl e | Inr s' \<Rightarrow> fold_err f s' xs)"

text \<open>
  \<^verbatim>\<open>_handle_snake_movement\<close>, called with the snake as it is after its move (the
  dictionary already holds that snake).
\<close>

definition snake_collision_step ::
    "string \<Rightarrow> SquareCoord \<Rightarrow> CollisionEvent list \<times> MultiSnakeGame \<Rightarrow> string \<times> Snake \<Rightarrow>
     error + CollisionEvent list \<times> MultiSnakeGame" where
  "snake_collision_step sid head st other =
     (let (events, g) = st; (other_id, other_snake) = other
      in if other_id \<noteq> sid \<and> occupies_position other_snake head then
           (case handle_snake_collision sid other_id head g of
              Inl e \<Rightarrow> Inl e
            | Inr g' \<Rightarrow>
                Inr (events @ [\<lparr>event_snake_id = sid, collision_type = SNAKE,
                                event_position = head, other_snake_id = Some other_id\<rparr>], g'))
         else Inr st)"

definition handle_snake_movement ::
    "string \<Rightarrow> Snake \<Rightarrow> SquareCoord option \<Rightarrow> MultiSnakeGame \<Rightarrow>
     error + CollisionEvent list \<times> MultiSnakeGame" where
  "handle_snake_movement sid snake tail_position g =
     (case get_head snake of
        None \<Rightarrow> Inr ([], g)
      | Some head \<Rightarrow>
          if \<not> is_valid_position (grid g) head then
            (case handle_snake_elimination sid g of
               Inl e \<Rightarrow> Inl e
             | Inr g' \<Rightarrow> Inr ([\<lparr>event_snake_id = sid, collision_type = WALL,
                                 event_position = head, other_snake_id = None\<rparr>], g'))
          else if check_self_collision snake then
            (case handle_snake_elimination sid g of
               Inl e \<Rightarrow> Inl e
             | Inr g' \<Rightarrow> Inr ([\<lparr>event_snake_id = sid, collision_type = SELF,
                                 event_position = head, other_snake_id = None\<rparr>], g'))
          else
            (case fold_err (snake_collision_step sid head) ([], g) (snakes g) of
               Inl e \<Rightarrow> Inl e
             | Inr (events, g') \<Rightarrow>
                 (let gr1 = (case tail_position of None \<Rightarrow> grid g' | Some t \<Rightarrow> vacate t (grid g'))
                  in Inr (events, g'\<lparr>grid := occupy head gr1\<rparr>))))"

text \<open>
  \<^verbatim>\<open>_check_food_collisions\<close>. For each food the first snake of the dictionary that is
  active and has its head on the food eats it (the \<^verbatim>\<open>break\<close>); the eaten foods are
  removed afterwards. Foods are compared by value here and by identity in the source;
  the foods to remove are entries of the list, so \<^verbatim>\<open>list.remove\<close> cannot fail.
\<close>

definition first_eater :: "MultiSnakeGame \<Rightarrow> Food \<Rightarrow> (string \<times> Snake) option" where
  "first_eater g food =
     find (\<lambda>(sid, snake). sid \<in> active_snakes g \<and> get_head snake = Some (position food)) (snakes g)"

definition food_step ::
    "CollisionEvent list \<times> Food list \<times> MultiSnakeGame \<Rightarrow> Food \<Rightarrow>
     error + CollisionEvent list \<times> Food list \<times> MultiSnakeGame" where
  "food_step st food =
     (let (events, food_to_remove, g) = st
      in case first_eater g food of
           None \<Rightarrow> Inr st
         | Some (sid, snake) \<Rightarrow>
             (case scores g sid of
                None \<Rightarrow> Inl KeyError
              | Some sc \<Rightarrow>
                  Inr (events @ [\<lparr>event_snake_id = sid, collision_type = FOOD,
                                  event_position = position food, other_snake_id = None\<rparr>],
                       food_to_remove @ [food],
                       g\<lparr>snakes := AList.update sid (grow 1 snake) (snakes g),
                         scores := (scores g)(sid \<mapsto> sc + point_value food)\<rparr>)))"

definition remove_food :: "MultiSnakeGame \<Rightarrow> Food \<Rightarrow> MultiSnakeGame" where
  "remove_food g food =
     g\<lparr>food_items := remove1 food (food_items g), grid := vacate (position food) (grid g)\<rparr>"

definition check_food_collisions ::
    "MultiSnakeGame \<Rightarrow> error + CollisionEvent list \<times> MultiSnakeGame" where
  "check_food_collisions g =
     (case fold_err food_step ([], [], g) (food_items g) of
        Inl e \<Rightarrow> Inl e
      | Inr (events, food_to_remove, g') \<Rightarrow> Inr (events, foldl remove_food g' food_to_remove))"

text \<open>
  What the Python runtime decides: the order in which a set is iterated, the draws of
  \<^verbatim>\<open>random.random()\<close> and \<^verbatim>\<open>random.choice\<close>, and the outcome of one \<^verbatim>\<open>update_ai\<close> call,
  which reads the wall clock and the random generator. \<^verbatim>\<open>update_ai\<close> writes only the
  AI's own fields and, through \<^verbatim>\<open>set_direction\<close>, the pending direction; the decision
  gives the new AI fields and the directions passed to \<^verbatim>\<open>set_direction\<close>, in order.
\<close>

record Runtime =
  set_order :: "string set \<Rightarrow> string list"
  random_draw :: "nat \<Rightarrow> rat"
  random_choice :: "nat \<Rightarrow> nat"
  ai_decision :: "string \<Rightarrow> Snake \<Rightarrow> MultiSnakeGame \<Rightarrow> AIFields \<times> Direction list"

definition update_ai :: "Runtime \<Rightarrow> MultiSnakeGame \<Rightarrow> string \<Rightarrow> Snake \<Rightarrow> Snake" where
  "update_ai rt g sid s =
     (let (a, dirs) = ai_decision rt sid s g
      in foldl (\<lambda>sn d. snd (set_direction d sn)) (s\<lparr>ai := Some a\<rparr>) dirs)"

text \<open>
  \<^verbatim>\<open>_update_food\<close>: the loop runs while the food list is short of \<^verbatim>\<open>max_food_items\<close>;
  \<^verbatim>\<open>n\<close> counts its iterations and indexes the random draws. The loop need not end, so
  its result is optional: \<^verbatim>\<open>None\<close> is a loop that runs forever.
\<close>

partial_function (option) update_food :: "Runtime \<Rightarrow> nat \<Rightarrow> MultiSnakeGame \<Rightarrow> MultiSnakeGame option" where
  "update_food rt n g =
     (if int (length (food_items g)) < max_food_items g then
        (if random_draw rt n < food_spawn_rate g then
           (case spawn_food (random_choice rt n) (grid g) of
              None \<Rightarrow> update_food rt (n + 1) g
            | Some new_food \<Rightarrow>
                update_food rt (n + 1)
                  (g\<lparr>food_items := food_items g @ [new_food],
                     grid := occupy (position new_food) (grid g)\<rparr>))
         else update_food rt (n + 1) g)
      else Some g)"

declare update_food.simps [code]

text \<open>One iteration of the movement loop of \<^verbatim>\<open>update\<close>.\<close>

definition move_step ::
    "CollisionEvent list \<times> MultiSnakeGame \<Rightarrow> string \<Rightarrow> error + CollisionEvent list \<times> MultiSnakeGame" where
  "move_step st sid =
     (let (events, g) = st
      in case map_of (snakes g) sid of
           None \<Rightarrow> Inl KeyError
         | Some snake \<Rightarrow>
             (let (tail_position, snake') = snake_move snake;
                  g1 = g\<lparr>snakes := AList.update sid snake' (snakes g)\<rparr>
              in case handle_snake_movement sid snake' tail_position g1 of
                   Inl e \<Rightarrow> Inl e
                 | Inr (snake_events, g2) \<Rightarrow> Inr (events @ snake_events, g2)))"

definition update_ai_snakes :: "Runtime \<Rightarrow> MultiSnakeGame \<Rightarrow> MultiSnakeGame" where
  "update_ai_snakes rt g =
     g\<lparr>snakes := map (\<lambda>(sid, s). if sid \<in> active_snakes g \<and> ai s \<noteq> None
                                   then (sid, update_ai rt g sid s) else (sid, s)) (snakes g)\<rparr>"

text \<open>
  \<^verbatim>\<open>update\<close>: advance the clock, let the active AI snakes decide, move every snake of
  \<^verbatim>\<open>list(self.active_snakes)\<close>, spawn food, resolve food collisions, record the events.
  \<^verbatim>\<open>_check_game_conditions\<close> changes nothing. The result is \<^verbatim>\<open>None\<close> when the call does
  not return, an error when it raises, and the events with the new state otherwise.
\<close>

definition update ::
    "Runtime \<Rightarrow> rat \<Rightarrow> MultiSnakeGame \<Rightarrow> (error + CollisionEvent list \<times> MultiSnakeGame) option" where
  "update rt dt g =
     (let g1 = g\<lparr>game_time := game_time g + dt\<rparr>;
          g2 = update_ai_snakes rt g1
      in case fold_err move_step ([], g2) (set_order rt (active_snakes g2)) of
           Inl e \<Rightarrow> Some (Inl e)
         | Inr (events, g3) \<Rightarrow>
             (case update_food rt 0 g3 of
                None \<Rightarrow> None
              | Some g4 \<Rightarrow>
                  (case check_food_collisions g4 of
                     Inl e \<Rightarrow> Some (Inl e)
                   | Inr (food_events, g5) \<Rightarrow>
                       Some (Inr (events @ food_events,
                                  g5\<lparr>collision_events := collision_events g5 @ events @ food_events\<rparr>)))))"

section \<open>Pathfinding (ai/pathfinding.py)\<close>

text \<open>
  A \<^verbatim>\<open>PathNode\<close> object exists once per position (it is created only for a position that
  \<^verbatim>\<open>all_nodes\<close> lacks), so a node is identified by its position: \<^verbatim>\<open>all_nodes\<close> is the
  store of the node objects, and the heap and the \<^verbatim>\<open>parent\<close> fields hold positions as
  references into it. A node changed in place is thereby changed for every reference
  the heap holds, as in the source.
\<close>

record PathNode =
  g_cost :: int
  f_cost :: int
  parent :: "SquareCoord option"

definition heuristic :: "SquareCoord \<Rightarrow> SquareCoord \<Rightarrow> int" where
  "heuristic pos1 pos2 = \<bar>cx pos1 - cx pos2\<bar> + \<bar>cy pos1 - cy pos2\<bar>"

text \<open>
  The standard library's \<^verbatim>\<open>heapq\<close> on a Python list: \<^verbatim>\<open>_siftdown\<close>, \<^verbatim>\<open>_siftup\<close>,
  \<^verbatim>\<open>heappush\<close> and \<^verbatim>\<open>heappop\<close>, comparing items with \<^verbatim>\<open><\<close> only. \<^verbatim>\<open>key\<close> reads the
  \<^verbatim>\<open>f_cost\<close> an item has at the time of the comparison (\<^verbatim>\<open>PathNode.__lt__\<close>). All
  indices stay inside the list.
\<close>

function siftdown_loop :: "('a \<Rightarrow> int) \<Rightarrow> 'a list \<Rightarrow> nat \<Rightarrow> 'a \<Rightarrow> nat \<Rightarrow> 'a list" where
  "siftdown_loop key heap startpos newitem pos =
     (if pos > startpos then
        (let parentpos = (pos - 1) div 2; par = heap ! parentpos
         in if key newitem < key par
            then siftdown_loop key (heap[pos := par]) startpos newitem parentpos
            else heap[pos := newitem])
      else heap[pos := newitem])"
  by pat_completeness auto
termination
  by (relation "measure (\<lambda>(key, heap, startpos, newitem, pos). pos)") auto

definition siftdown :: "('a \<Rightarrow> int) \<Rightarrow> 'a list \<Rightarrow> nat \<Rightarrow> nat \<Rightarrow> 'a list" where
  "siftdown key heap startpos pos = siftdown_loop key heap startpos (heap ! pos) pos"

function siftup_loop :: "('a \<Rightarrow> int) \<Rightarrow> 'a list \<Rightarrow> nat \<Rightarrow> nat \<Rightarrow> 'a list \<times> nat" where
  "siftup_loop key heap endpos pos =
     (let childpos = 2 * pos + 1
      in if childpos < endpos then
           (let rightpos = childpos + 1;
                smaller = (if rightpos < endpos \<and> \<not> key (heap ! childpos) < key (heap ! rightpos)
                           then rightpos else childpos)
            in siftup_loop key (heap[pos := heap ! smaller]) endpos smaller)
         else (heap, pos))"
  by pat_completeness auto
termination
  by (relation "measure (\<lambda>(key, heap, endpos, pos). endpos - pos)") auto

definition siftup :: "('a \<Rightarrow> int) \<Rightarrow> 'a list \<Rightarrow> nat \<Rightarrow> 'a list" where
  "siftup key heap pos =
     (let newitem = heap ! pos;
          (heap', leaf) = siftup_loop key heap (length heap) pos
      in siftdown key (heap'[leaf := newitem]) pos leaf)"

definition heappush :: "('a \<Rightarrow> int) \<Rightarrow> 'a list \<Rightarrow> 'a \<Rightarrow> 'a list" where
  "heappush key heap item = siftdown key (heap @ [item]) 0 (length heap)"

text \<open>\<^verbatim>\<open>heappop\<close> is called on a non-empty heap only (\<^verbatim>\<open>while open_set\<close>).\<close>

definition heappop :: "('a \<Rightarrow> int) \<Rightarrow> 'a list \<Rightarrow> 'a \<times> 'a list" where
  "heappop key heap =
     (let lastelt = last heap; heap' = butlast heap
      in if heap' \<noteq> [] then (heap' ! 0, siftup key (heap'[0 := lastelt]) 0)
         else (lastelt, []))"

text \<open>The \<^verbatim>\<open>f_cost\<close> of the node at a position; every position in the heap has a node.\<close>

definition f_of :: "(SquareCoord \<rightharpoonup> PathNode) \<Rightarrow> SquareCoord \<Rightarrow> int" where
  "f_of all_nodes p = (case all_nodes p of Some n \<Rightarrow> f_cost n | None \<Rightarrow> 0)"

definition g_of :: "(SquareCoord \<rightharpoonup> PathNode) \<Rightarrow> SquareCoord \<Rightarrow> int" where
  "g_of all_nodes p = (case all_nodes p of Some n \<Rightarrow> g_cost n | None \<Rightarrow> 0)"

text \<open>
  The body of \<^verbatim>\<open>for neighbor in neighbors\<close>: a new node is created and pushed; a known
  node with a larger \<^verbatim>\<open>g_cost\<close> is changed in place, where it sits in the heap, and pushed
  once more.
\<close>

definition visit_neighbor ::
    "SquareCoord \<Rightarrow> SquareCoord \<Rightarrow> SquareCoord set \<Rightarrow> SquareCoord set \<Rightarrow>
     SquareCoord list \<times> (SquareCoord \<rightharpoonup> PathNode) \<Rightarrow> SquareCoord \<Rightarrow>
     SquareCoord list \<times> (SquareCoord \<rightharpoonup> PathNode)" where
  "visit_neighbor current goal obstacles closed_set st neighbor =
     (let (open_set, all_nodes) = st
      in if neighbor \<in> closed_set \<or> neighbor \<in> obstacles then st
         else
           (let g = g_of all_nodes current + 1;
                h = heuristic neighbor goal
            in case all_nodes neighbor of
                 None \<Rightarrow>
                   (let all_nodes' = all_nodes(neighbor \<mapsto>
                          \<lparr>g_cost = g, f_cost = g + h, parent = Some current\<rparr>)
                    in (heappush (f_of all_nodes') open_set neighbor, all_nodes'))
               | Some neighbor_node \<Rightarrow>
                   if g < g_cost neighbor_node then
                     (let all_nodes' = all_nodes(neighbor \<mapsto>
                            neighbor_node\<lparr>g_cost := g, f_cost := g + h, parent := Some current\<rparr>)
                      in (heappush (f_of all_nodes') open_set neighbor, all_nodes'))
                   else st))"

text \<open>\<^verbatim>\<open>_reconstruct_path\<close> follows the parents; \<^verbatim>\<open>path\<close> is the list built so far.\<close>

partial_function (option) reconstruct_path ::
    "(SquareCoord \<rightharpoonup> PathNode) \<Rightarrow> SquareCoord option \<Rightarrow> SquareCoord list \<Rightarrow> SquareCoord list option" where
  "reconstruct_path all_nodes cur path =
     (case cur of
        None \<Rightarrow> Some (rev path)
      | Some p \<Rightarrow>
          (case all_nodes p of
             None \<Rightarrow> Some (rev (path @ [p]))
           | Some n \<Rightarrow> reconstruct_path all_nodes (parent n) (path @ [p])))"

text \<open>
  The \<^verbatim>\<open>while open_set\<close> loop. The outer option is \<^verbatim>\<open>None\<close> when the loop does not
  return; the inner one is the function's \<^verbatim>\<open>Optional\<close> result.
\<close>

partial_function (option) astar_loop ::
    "Grid \<Rightarrow> SquareCoord \<Rightarrow> SquareCoord set \<Rightarrow> SquareCoord list \<Rightarrow> SquareCoord set \<Rightarrow>
     (SquareCoord \<rightharpoonup> PathNode) \<Rightarrow> SquareCoord list option option" where
  "astar_loop gr goal obstacles open_set closed_set all_nodes =
     (if open_set \<noteq> [] then
        (let (current, open_set1) = heappop (f_of all_nodes) open_set
         in if current = goal then map_option Some (reconstruct_path all_nodes (Some current) [])
            else
              (let closed_set1 = insert current closed_set;
                   (open_set2, all_nodes1) =
                      foldl (visit_neighbor current goal obstacles closed_set1) (open_set1, all_nodes)
                        (get_neighbors gr current)
               in astar_loop gr goal obstacles open_set2 closed_set1 all_nodes1))
      else Some None)"

declare reconstruct_path.simps [code] astar_loop.simps [code]

definition find_path_astar ::
    "Grid \<Rightarrow> SquareCoord \<Rightarrow> SquareCoord \<Rightarrow> SquareCoord set \<Rightarrow> SquareCoord list option option" where
  "find_path_astar gr start goal obstacles =
     (if \<not> is_valid_position gr start \<or> \<not> is_valid_position gr goal then Some None
      else if start \<in> obstacles \<or> goal \<in> obstacles then Some None
      else astar_loop gr goal obstacles [start] {}
             [start \<mapsto> \<lparr>g_cost = 0, f_cost = heuristic start goal, parent = None\<rparr>])"

text \<open>
  The specification's reference for path lengths: breadth-first search over the in-bounds,
  non-obstacle cells, counting the cells of a shortest path from start to goal
  (both inclusive). \<^verbatim>\<open>fuel\<close> bounds the number of layers.
\<close>

fun bfs_layers ::
    "nat \<Rightarrow> Grid \<Rightarrow> SquareCoord set \<Rightarrow> SquareCoord list \<Rightarrow> SquareCoord set \<Rightarrow> SquareCoord \<Rightarrow> nat \<Rightarrow> nat option" where
  "bfs_layers 0 gr obstacles frontier visited goal d = None"
| "bfs_layers (Suc fuel) gr obstacles frontier visited goal d =
     (if goal \<in> set frontier then Some d
      else if frontier = [] then None
      else (let nxt = remdups (concat (map (\<lambda>p. filter (\<lambda>n. n \<notin> obstacles \<and> n \<notin> visited)
                                                   (get_neighbors gr p)) frontier))
            in bfs_layers fuel gr obstacles nxt (visited \<union> set nxt) goal (d + 1)))"

definition bfs_path_length :: "Grid \<Rightarrow> SquareCoord \<Rightarrow> SquareCoord \<Rightarrow> SquareCoord set \<Rightarrow> nat option" where
  "bfs_path_length gr start goal obstacles =
     (if \<not> is_valid_position gr start \<or> \<not> is_valid_position gr goal
         \<or> start \<in> obstacles \<or> goal \<in> obstacles then None
      else bfs_layers (nat (width gr * height gr) + 1) gr obstacles [start] {start} goal 1)"

text \<open>A path of the filtered graph: it steps between neighbours and avoids the obstacles.\<close>

fun is_grid_path :: "Grid \<Rightarrow> SquareCoord set \<Rightarrow> SquareCoord list \<Rightarrow> bool" where
  "is_grid_path gr obstacles [] = True"
| "is_grid_path gr obstacles [p] = (is_valid_position gr p \<and> p \<notin> obstacles)"
| "is_grid_path gr obstacles (p # q # rest) =
     (is_valid_position gr p \<and> p \<notin> obstacles \<and> q \<in> set (get_neighbors gr p)
      \<and> is_grid_path gr obstacles (q # rest))"

section \<open>Eliminations and sequences of operations\<close>

text \<open>
  The ids for which a list of events reports a collision with a wall or with the snake
  itself.
\<close>

definition crashed :: "CollisionEvent list \<Rightarrow> string set" where
  "crashed evs =
     {event_snake_id e |e. e \<in> set evs \<and> (collision_type e = WALL \<or> collision_type e = SELF)}"

text \<open>
  A change of state that keeps the set of snake ids and the mode and only moves ids of
  known snakes from the active set to the eliminated set.
\<close>

definition only_eliminates :: "MultiSnakeGame \<Rightarrow> MultiSnakeGame \<Rightarrow> bool" where
  "only_eliminates g g' \<longleftrightarrow>
     snake_ids g' = snake_ids g \<and> game_mode g' = game_mode g \<and>
     (\<exists>X. X \<subseteq> snake_ids g \<and> eliminated_snakes g' = eliminated_snakes g \<union> X
          \<and> active_snakes g' = active_snakes g - X)"

text \<open>
  One operation of the public interface: adding a player or an AI snake, removing a
  snake, or an \<^verbatim>\<open>update\<close> call that returns. The reachable states are those reached by
  any number of such steps from a new game.
\<close>

inductive game_step :: "MultiSnakeGame \<Rightarrow> MultiSnakeGame \<Rightarrow> bool" where
  step_add_player: "game_step g (snd (add_player_snake sid start_position start_direction g))"
| step_add_ai: "game_step g (snd (add_ai_snake sid start_position pers diff now g))"
| step_remove: "game_step g (snd (remove_snake sid g))"
| step_update: "update rt dt g = Some (Inr (evs, g')) \<Longrightarrow> game_step g g'"

text \<open>The two sets are disjoint and the eliminated ids are ids of known snakes.\<close>

definition sets_consistent :: "MultiSnakeGame \<Rightarrow> bool" where
  "sets_consistent g \<longleftrightarrow>
     active_snakes g \<inter> eliminated_snakes g = {} \<and> eliminated_snakes g \<subseteq> snake_ids g"

text \<open>All ids of the two sets are ids of known snakes.\<close>

definition sets_known :: "MultiSnakeGame \<Rightarrow> bool" where
  "sets_known g \<longleftrightarrow> active_snakes g \<union> eliminated_snakes g \<subseteq> snake_ids g"

section \<open>Notions for the food collisions\<close>

text \<open>
  The two dictionaries are well formed: the keys of \<^verbatim>\<open>snakes\<close> are distinct, as the keys of
  a dictionary are, and every snake has a score.
\<close>

definition dictionaries_ok :: "MultiSnakeGame \<Rightarrow> bool" where
  "dictionaries_ok g \<longleftrightarrow> distinct (map fst (snakes g)) \<and> snake_ids g \<subseteq> dom (scores g)"


text \<open>
  The id of the snake that eats a food: the first one of the dictionary that is active
  with its head on the food. The table of the heads is what this choice depends on.
\<close>

definition eater_id :: "MultiSnakeGame \<Rightarrow> Food \<Rightarrow> string option" where
  "eater_id g food = map_option fst (first_eater g food)"

definition head_table :: "MultiSnakeGame \<Rightarrow> (string \<times> SquareCoord option) list" where
  "head_table g = map (\<lambda>(sid, snake). (sid, get_head snake)) (snakes g)"

section \<open>Example states\<close>

definition grid10 :: Grid where
  "grid10 = \<lparr>width = 10, height = 10, occupied_cells = {}\<rparr>"

text \<open>
  Two player snakes: ``a'' heads right from (6,5), ``b'' points down with its body on
  (7,6), (7,5), (7,4); after one move the head of ``a'' is on the body of ``b''.
\<close>

definition crossing_game :: "GameMode \<Rightarrow> MultiSnakeGame" where
  "crossing_game m =
     snd (add_player_snake ''b'' (SquareCoord 7 6) DOWN
       (snd (add_player_snake ''a'' (SquareCoord 6 5) RIGHT (MultiSnakeGame_init grid10 m))))"

text \<open>A runtime that iterates the active set as ``a'', ``b'' and whose draws are all 0.\<close>

definition runtime_ab :: Runtime where
  "runtime_ab =
     \<lparr>set_order = (\<lambda>S. filter (\<lambda>sid. sid \<in> S) [''a'', ''b'']),
      random_draw = (\<lambda>n. 0), random_choice = (\<lambda>n. 0),
      ai_decision = (\<lambda>sid s g. (case ai s of Some a \<Rightarrow> a
         | None \<Rightarrow> \<lparr>personality = BALANCED, difficulty = 1 / 2, current_target = None,
                    current_path = [], pathfinding_cooldown = 0, last_update_time = 0,
                    decision_delay = 1 / 10, mistake_chance = 1 / 2\<rparr>, []))\<rparr>"


section \<open>Theorems\<close>

subsection \<open>Auxiliary lemmas\<close>

lemma around_mem:
  "d \<in> set (concat (map (\<lambda>dx. concat (map (\<lambda>dy.
           (let danger_pos = SquareCoord (cx ob + dx) (cy ob + dy)
            in if danger_pos \<notin> S then [danger_pos] else [])) [-1, 0, 1])) [-1, 0, 1]))
   \<longleftrightarrow> d \<notin> S \<and> \<bar>cx d - cx ob\<bar> \<le> 1 \<and> \<bar>cy d - cy ob\<bar> \<le> 1"
proof -
  obtain a b where d: "d = SquareCoord a b" by (cases d)
  obtain u v where ob: "ob = SquareCoord u v" by (cases ob)
  have x: "\<bar>a - u\<bar> \<le> 1 \<longleftrightarrow> a = u - 1 \<or> a = u \<or> a = u + 1" by auto
  have y: "\<bar>b - v\<bar> \<le> 1 \<longleftrightarrow> b = v - 1 \<or> b = v \<or> b = v + 1" by auto
  show ?thesis
    unfolding d ob Let_def
    apply (simp add: x y)
    apply (rule iffI)
     apply (elim disjE conjE; simp)
    apply (elim disjE conjE; simp)
    done
qed

lemma score_race_handle_collision:
  "game_mode g = SCORE_RACE \<Longrightarrow> handle_snake_collision snake1_id snake2_id pos g = Inr g"
  by (simp add: handle_snake_collision_def)

lemma score_race_collision_step:
  "game_mode g = SCORE_RACE \<Longrightarrow>
   snake_collision_step sid head (evs, g) (other_id, other_snake) =
     Inr (if other_id \<noteq> sid \<and> occupies_position other_snake head
          then evs @ [\<lparr>event_snake_id = sid, collision_type = SNAKE,
                       event_position = head, other_snake_id = Some other_id\<rparr>]
          else evs, g)"
  by (simp add: snake_collision_step_def score_race_handle_collision)

lemma score_race_collision_fold:
  assumes "game_mode g = SCORE_RACE"
  shows "fold_err (snake_collision_step sid head) (evs, g) others =
     Inr (evs @ map (\<lambda>(other_id, other_snake).
                      \<lparr>event_snake_id = sid, collision_type = SNAKE,
                       event_position = head, other_snake_id = Some other_id\<rparr>)
                 (filter (\<lambda>(other_id, other_snake). other_id \<noteq> sid \<and> occupies_position other_snake head)
                    others), g)"
proof (induction others arbitrary: evs)
  case Nil
  show ?case by simp
next
  case (Cons other others)
  obtain other_id other_snake where o: "other = (other_id, other_snake)"
    by (cases other)
  show ?case
    by (simp add: o score_race_collision_step [OF assms] Cons.IH)
qed

lemma set_empty_cells:
  "set (empty_cells g) = {c. is_valid_position g c \<and> \<not> is_occupied g c}"
proof (rule set_eqI)
  fix c
  obtain a b where c: "c = SquareCoord a b" by (cases c)
  have ix: "a \<in> int ` {0..<nat (width g)} \<longleftrightarrow> 0 \<le> a \<and> a < width g"
    by (auto simp: image_iff intro: rev_bexI [of "nat a"])
  have iy: "b \<in> int ` {0..<nat (height g)} \<longleftrightarrow> 0 \<le> b \<and> b < height g"
    by (auto simp: image_iff intro: rev_bexI [of "nat b"])
  have "c \<in> set (empty_cells g) \<longleftrightarrow>
      a \<in> int ` {0..<nat (width g)} \<and> b \<in> int ` {0..<nat (height g)} \<and> \<not> is_occupied g c"
    unfolding empty_cells_def c by (auto split: if_splits)
  then show "c \<in> set (empty_cells g) \<longleftrightarrow> c \<in> {c. is_valid_position g c \<and> \<not> is_occupied g c}"
    unfolding ix iy by (auto simp: is_valid_position_def c)
qed

lemma spawn_food_position:
  "spawn_food k gr = Some food \<Longrightarrow> position food \<in> set (empty_cells gr)"
proof -
  assume a: "spawn_food k gr = Some food"
  then obtain c where c: "get_random_empty_cell k gr = Some c" and p: "position food = c"
    by (auto simp: spawn_food_def split: option.splits)
  from c have ne: "empty_cells gr \<noteq> []" and "c = empty_cells gr ! (k mod length (empty_cells gr))"
    by (auto simp: get_random_empty_cell_def split: if_splits list.splits)
  then have "c \<in> set (empty_cells gr)"
    by (simp add: nth_mem)
  with p show ?thesis by simp
qed

lemma card_empty_cells_occupy:
  assumes "c \<in> set (empty_cells gr)"
  shows "card (set (empty_cells (occupy c gr))) + 1 = card (set (empty_cells gr))"
proof -
  have "set (empty_cells (occupy c gr)) = set (empty_cells gr) - {c}"
    unfolding set_empty_cells by (auto simp: occupy_def is_valid_position_def is_occupied_def)
  then show ?thesis
    using assms card_Suc_Diff1 [of "set (empty_cells gr)" c] by simp
qed

lemma update_food_returns:
  assumes "update_food rt n g = Some g'"
  shows "\<not> int (length (food_items g)) + int (card (set (empty_cells (grid g)))) < max_food_items g"
proof (rule update_food.raw_induct
    [where P = "\<lambda>rt n g g'. \<not> int (length (food_items g)) + int (card (set (empty_cells (grid g))))
                                  < max_food_items g", OF _ assms])
  fix f :: "Runtime \<Rightarrow> nat \<Rightarrow> MultiSnakeGame \<Rightarrow> MultiSnakeGame option"
  fix rt n g g'
  assume IH: "\<And>rt n g g'. f rt n g = Some g' \<Longrightarrow>
      \<not> int (length (food_items g)) + int (card (set (empty_cells (grid g)))) < max_food_items g"
  assume body: "(if int (length (food_items g)) < max_food_items g
      then if random_draw rt n < food_spawn_rate g
           then case spawn_food (random_choice rt n) (grid g) of
                  None \<Rightarrow> f rt (n + 1) g
                | Some new_food \<Rightarrow>
                    f rt (n + 1) (g\<lparr>food_items := food_items g @ [new_food],
                                     grid := occupy (position new_food) (grid g)\<rparr>)
           else f rt (n + 1) g
      else Some g) = Some g'"
  show "\<not> int (length (food_items g)) + int (card (set (empty_cells (grid g)))) < max_food_items g"
  proof
    assume short: "int (length (food_items g)) + int (card (set (empty_cells (grid g)))) < max_food_items g"
    then have lt: "int (length (food_items g)) < max_food_items g" by linarith
    show False
    proof (cases "random_draw rt n < food_spawn_rate g")
      case False
      with lt body have "f rt (n + 1) g = Some g'" by simp
      from IH [OF this] short show False by simp
    next
      case True
      show False
      proof (cases "spawn_food (random_choice rt n) (grid g)")
        case None
        with True lt body have "f rt (n + 1) g = Some g'" by simp
        from IH [OF this] short show False by simp
      next
        case (Some new_food)
        let ?g1 = "g\<lparr>food_items := food_items g @ [new_food],
                       grid := occupy (position new_food) (grid g)\<rparr>"
        from Some True lt body have "f rt (n + 1) ?g1 = Some g'" by simp
        from IH [OF this]
        have "\<not> int (length (food_items ?g1)) + int (card (set (empty_cells (grid ?g1)))) < max_food_items ?g1" .
        moreover have "card (set (empty_cells (occupy (position new_food) (grid g)))) + 1
            = card (set (empty_cells (grid g)))"
          by (rule card_empty_cells_occupy [OF spawn_food_position [OF Some]])
        ultimately show False using short by simp
      qed
    qed
  qed
qed

lemma update_food_diverges:
  "int (length (food_items g)) + int (card (set (empty_cells (grid g)))) < max_food_items g \<Longrightarrow>
   update_food rt n g = None"
  by (cases "update_food rt n g") (auto dest: update_food_returns)

lemma score_race_movement_no_elimination:
  assumes "game_mode g = SCORE_RACE"
    and "get_head snake = Some head"
    and "is_valid_position (grid g) head"
    and "\<not> check_self_collision snake"
  shows "\<exists>g'. handle_snake_movement sid snake tail_position g =
           Inr (map (\<lambda>(other_id, other_snake).
                       \<lparr>event_snake_id = sid, collision_type = SNAKE,
                        event_position = head, other_snake_id = Some other_id\<rparr>)
                  (filter (\<lambda>(other_id, other_snake). other_id \<noteq> sid \<and> occupies_position other_snake head)
                     (snakes g)), g')
         \<and> active_snakes g' = active_snakes g \<and> eliminated_snakes g' = eliminated_snakes g"
  using assms
  by (simp add: handle_snake_movement_def score_race_collision_fold)

lemma crashed_simps:
  "crashed [] = {}"
  "crashed (evs @ evs') = crashed evs \<union> crashed evs'"
  "crashed [e] = (if collision_type e = WALL \<or> collision_type e = SELF then {event_snake_id e} else {})"
  by (auto simp: crashed_def)

lemma crashed_none:
  "(\<And>e. e \<in> set evs \<Longrightarrow> collision_type e \<noteq> WALL \<and> collision_type e \<noteq> SELF) \<Longrightarrow> crashed evs = {}"
  by (auto simp: crashed_def)

lemma fold_err_invariant:
  assumes "fold_err f s xs = Inr s'" and "P s"
    and "\<And>s x s'. P s \<Longrightarrow> f s x = Inr s' \<Longrightarrow> P s'"
  shows "P s'"
  using assms(1,2)
proof (induction xs arbitrary: s)
  case Nil
  then show ?case by simp
next
  case (Cons x xs)
  from Cons.prems(1) obtain s1 where s1: "f s x = Inr s1" and rest: "fold_err f s1 xs = Inr s'"
    by (auto split: sum.splits)
  from assms(3) [OF Cons.prems(2) s1] have "P s1" .
  from Cons.IH [OF rest this] show ?case .
qed

lemma handle_snake_elimination_Inr:
  assumes "handle_snake_elimination sid g = Inr g'"
  shows "eliminated_snakes g' = insert sid (eliminated_snakes g)"
    and "active_snakes g' = active_snakes g - {sid}"
    and "snakes g' = snakes g"
    and "game_mode g' = game_mode g"
    and "scores g' = scores g"
    and "sid \<in> snake_ids g"
proof -
  from assms obtain snake where m: "map_of (snakes g) sid = Some snake"
    and g': "g' = g\<lparr>active_snakes := active_snakes g - {sid},
                    eliminated_snakes := insert sid (eliminated_snakes g),
                    grid := foldl (\<lambda>gr segment. vacate segment gr) (grid g) (segments snake)\<rparr>"
    by (auto simp: handle_snake_elimination_def Let_def split: option.splits)
  show "eliminated_snakes g' = insert sid (eliminated_snakes g)"
    "active_snakes g' = active_snakes g - {sid}" "snakes g' = snakes g"
    "game_mode g' = game_mode g" "scores g' = scores g"
    by (simp_all add: g')
  from map_of_SomeD [OF m] show "sid \<in> snake_ids g"
    by (force simp: snake_ids_def)
qed

lemma only_eliminates_refl: "only_eliminates g g"
  unfolding only_eliminates_def by (intro conjI exI [of _ "{}"]) simp_all

lemma only_eliminates_trans:
  assumes "only_eliminates g g1" and "only_eliminates g1 g2"
  shows "only_eliminates g g2"
proof -
  from assms(1) obtain X where X: "snake_ids g1 = snake_ids g" "game_mode g1 = game_mode g"
      "X \<subseteq> snake_ids g" "eliminated_snakes g1 = eliminated_snakes g \<union> X"
      "active_snakes g1 = active_snakes g - X"
    unfolding only_eliminates_def by blast
  from assms(2) obtain Y where Y: "snake_ids g2 = snake_ids g1" "game_mode g2 = game_mode g1"
      "Y \<subseteq> snake_ids g1" "eliminated_snakes g2 = eliminated_snakes g1 \<union> Y"
      "active_snakes g2 = active_snakes g1 - Y"
    unfolding only_eliminates_def by blast
  show ?thesis
    unfolding only_eliminates_def
  proof (intro conjI exI [of _ "X \<union> Y"])
    show "snake_ids g2 = snake_ids g" using X(1) Y(1) by simp
    show "game_mode g2 = game_mode g" using X(2) Y(2) by simp
    show "X \<union> Y \<subseteq> snake_ids g" using X(1,3) Y(3) by simp
    show "eliminated_snakes g2 = eliminated_snakes g \<union> (X \<union> Y)" using X(4) Y(4) by auto
    show "active_snakes g2 = active_snakes g - (X \<union> Y)" using X(5) Y(5) by auto
  qed
qed

lemma only_eliminates_same:
  assumes "snake_ids g' = snake_ids g" and "game_mode g' = game_mode g"
    and "eliminated_snakes g' = eliminated_snakes g" and "active_snakes g' = active_snakes g"
  shows "only_eliminates g g'"
  unfolding only_eliminates_def using assms by (intro conjI exI [of _ "{}"]) simp_all

lemma elimination_only_eliminates:
  assumes "handle_snake_elimination sid g = Inr g'"
  shows "only_eliminates g g'"
  unfolding only_eliminates_def
  using handle_snake_elimination_Inr [OF assms]
  by (intro conjI exI [of _ "{sid}"]) (simp_all add: snake_ids_def)

lemma collision_only_eliminates:
  assumes "handle_snake_collision snake1_id snake2_id pos g = Inr g'"
  shows "only_eliminates g g'"
proof (cases "game_mode g")
  case SURVIVAL
  with assms obtain g1 where 1: "handle_snake_elimination snake1_id g = Inr g1"
    and 2: "handle_snake_elimination snake2_id g1 = Inr g'"
    by (auto simp: handle_snake_collision_def split: sum.splits)
  show ?thesis
    by (rule only_eliminates_trans [OF elimination_only_eliminates [OF 1] elimination_only_eliminates [OF 2]])
next
  case FREE_FOR_ALL
  with assms have "handle_snake_elimination snake1_id g = Inr g' \<or> g' = g"
    by (auto simp: handle_snake_collision_def split: option.splits if_splits)
  then show ?thesis
    using elimination_only_eliminates only_eliminates_refl by blast
next
  case SCORE_RACE
  with assms have "g' = g" by (simp add: handle_snake_collision_def)
  then show ?thesis by (simp add: only_eliminates_refl)
next
  case COOPERATIVE
  with assms have "g' = g" by (simp add: handle_snake_collision_def)
  then show ?thesis by (simp add: only_eliminates_refl)
qed

lemma collision_step_only_eliminates:
  assumes "snake_collision_step sid head (evs, g) other = Inr (evs', g')"
  shows "only_eliminates g g'"
proof -
  obtain other_id other_snake where o: "other = (other_id, other_snake)" by (cases other)
  from assms have "handle_snake_collision sid other_id head g = Inr g' \<or> g' = g"
    unfolding o snake_collision_step_def by (auto split: if_splits sum.splits)
  then show ?thesis
    using collision_only_eliminates only_eliminates_refl by blast
qed

lemma movement_only_eliminates:
  assumes "handle_snake_movement sid snake tail_position g = Inr (evs, g')"
  shows "only_eliminates g g'"
proof (cases "get_head snake")
  case None
  with assms have "g' = g" by (simp add: handle_snake_movement_def)
  then show ?thesis by (simp add: only_eliminates_refl)
next
  case (Some head)
  show ?thesis
  proof (cases "\<not> is_valid_position (grid g) head \<or> check_self_collision snake")
    case True
    with Some assms have "handle_snake_elimination sid g = Inr g'"
      by (auto simp: handle_snake_movement_def split: sum.splits if_splits)
    then show ?thesis by (rule elimination_only_eliminates)
  next
    case False
    with Some assms obtain g1 where
      f: "fold_err (snake_collision_step sid head) ([], g) (snakes g) = Inr (evs, g1)"
      and g': "g' = g1\<lparr>grid := occupy head (case tail_position of None \<Rightarrow> grid g1 | Some t \<Rightarrow> vacate t (grid g1))\<rparr>"
      by (auto simp: handle_snake_movement_def Let_def split: sum.splits)
    have "only_eliminates g (snd (evs, g1))"
    proof (rule fold_err_invariant [OF f, where P = "\<lambda>st. only_eliminates g (snd st)"])
      show "only_eliminates g (snd ([], g))" by (simp add: only_eliminates_refl)
    next
      fix s x s'
      assume a: "only_eliminates g (snd s)" and b: "snake_collision_step sid head s x = Inr s'"
      obtain e1 h1 where s: "s = (e1, h1)" by (cases s)
      obtain e2 h2 where s': "s' = (e2, h2)" by (cases s')
      from collision_step_only_eliminates [OF b [unfolded s s']] a
      show "only_eliminates g (snd s')"
        unfolding s s' using only_eliminates_trans by auto
    qed
    then have "only_eliminates g g1" by simp
    moreover have "only_eliminates g1 g'"
      by (rule only_eliminates_same) (simp_all add: g' snake_ids_def)
    ultimately show ?thesis by (rule only_eliminates_trans)
  qed
qed

lemma snake_ids_update_existing:
  assumes "map_of al k = Some v"
  shows "fst ` set (AList.update k v' al) = fst ` set al"
proof -
  from map_of_SomeD [OF assms] have "k \<in> fst ` set al" by force
  then show ?thesis by (auto simp: dom_update)
qed

lemma move_step_only_eliminates:
  assumes "move_step (evs, g) sid = Inr (evs', g')"
  shows "only_eliminates g g'"
proof -
  from assms obtain snake where m: "map_of (snakes g) sid = Some snake"
    by (auto simp: move_step_def split: option.splits)
  obtain tail_position snake' where mv: "snake_move snake = (tail_position, snake')"
    by (cases "snake_move snake")
  let ?g1 = "g\<lparr>snakes := AList.update sid snake' (snakes g)\<rparr>"
  from assms m mv obtain snake_events where
    h: "handle_snake_movement sid snake' tail_position ?g1 = Inr (snake_events, g')"
    by (auto simp: move_step_def split: sum.splits)
  have "only_eliminates g ?g1"
    by (rule only_eliminates_same) (simp_all add: snake_ids_def snake_ids_update_existing [OF m])
  from only_eliminates_trans [OF this movement_only_eliminates [OF h]] show ?thesis .
qed

lemma update_ai_snakes_only_eliminates: "only_eliminates g (update_ai_snakes rt g)"
proof (rule only_eliminates_same)
  have "fst ` set (map (\<lambda>(sid, s). if sid \<in> A \<and> ai s \<noteq> None then (sid, f sid s) else (sid, s)) xs)
      = fst ` set xs" for A f and xs :: "(string \<times> Snake) list"
    by (induction xs) auto
  then show "snake_ids (update_ai_snakes rt g) = snake_ids g"
    by (simp add: update_ai_snakes_def snake_ids_def)
qed (simp_all add: update_ai_snakes_def)

lemma update_food_frame:
  assumes "update_food rt n g = Some g'"
  shows "snakes g' = snakes g \<and> game_mode g' = game_mode g \<and> scores g' = scores g
       \<and> eliminated_snakes g' = eliminated_snakes g \<and> active_snakes g' = active_snakes g"
proof (rule update_food.raw_induct
    [where P = "\<lambda>rt n g g'. snakes g' = snakes g \<and> game_mode g' = game_mode g \<and> scores g' = scores g
       \<and> eliminated_snakes g' = eliminated_snakes g \<and> active_snakes g' = active_snakes g", OF _ assms])
  fix f :: "Runtime \<Rightarrow> nat \<Rightarrow> MultiSnakeGame \<Rightarrow> MultiSnakeGame option"
  fix rt n g g'
  assume IH: "\<And>rt n g g'. f rt n g = Some g' \<Longrightarrow>
      snakes g' = snakes g \<and> game_mode g' = game_mode g \<and> scores g' = scores g
       \<and> eliminated_snakes g' = eliminated_snakes g \<and> active_snakes g' = active_snakes g"
  assume body: "(if int (length (food_items g)) < max_food_items g
      then if random_draw rt n < food_spawn_rate g
           then case spawn_food (random_choice rt n) (grid g) of
                  None \<Rightarrow> f rt (n + 1) g
                | Some new_food \<Rightarrow>
                    f rt (n + 1) (g\<lparr>food_items := food_items g @ [new_food],
                                     grid := occupy (position new_food) (grid g)\<rparr>)
           else f rt (n + 1) g
      else Some g) = Some g'"
  from body have "g' = g \<or> f rt (n + 1) g = Some g' \<or>
      (\<exists>new_food. f rt (n + 1) (g\<lparr>food_items := food_items g @ [new_food],
                                     grid := occupy (position new_food) (grid g)\<rparr>) = Some g')"
    by (auto split: if_splits option.splits)
  then show "snakes g' = snakes g \<and> game_mode g' = game_mode g \<and> scores g' = scores g
       \<and> eliminated_snakes g' = eliminated_snakes g \<and> active_snakes g' = active_snakes g"
  proof (elim disjE exE)
    assume "g' = g" then show ?thesis by simp
  next
    assume "f rt (n + 1) g = Some g'" from IH [OF this] show ?thesis .
  next
    fix new_food
    assume "f rt (n + 1) (g\<lparr>food_items := food_items g @ [new_food],
                                     grid := occupy (position new_food) (grid g)\<rparr>) = Some g'"
    from IH [OF this] show ?thesis by simp
  qed
qed

lemma find_Some_mem: "find P xs = Some x \<Longrightarrow> x \<in> set xs \<and> P x"
  by (induction xs) (auto split: if_splits)

lemma food_step_frame:
  assumes "food_step (evs, rem, g) food = Inr (evs', rem', g')"
  shows "only_eliminates g g' \<and> eliminated_snakes g' = eliminated_snakes g
       \<and> active_snakes g' = active_snakes g \<and> crashed evs' = crashed evs"
proof (cases "first_eater g food")
  case None
  with assms have "evs' = evs" "g' = g" by (simp_all add: food_step_def)
  then show ?thesis by (simp add: only_eliminates_refl)
next
  case (Some p)
  obtain sid snake where p: "p = (sid, snake)" by (cases p)
  from Some p have "(sid, snake) \<in> set (snakes g)"
    unfolding first_eater_def by (auto dest: find_Some_mem)
  then have k: "insert sid (fst ` set (snakes g)) = fst ` set (snakes g)" by force
  from assms Some p obtain sc where
    evs': "evs' = evs @ [\<lparr>event_snake_id = sid, collision_type = FOOD,
                           event_position = position food, other_snake_id = None\<rparr>]"
    and g': "g' = g\<lparr>snakes := AList.update sid (grow 1 snake) (snakes g),
                    scores := (scores g)(sid \<mapsto> sc + point_value food)\<rparr>"
    by (auto simp: food_step_def split: option.splits)
  have "only_eliminates g g'"
    by (rule only_eliminates_same) (simp_all add: g' snake_ids_def dom_update k)
  then show ?thesis by (simp add: g' evs' crashed_simps)
qed

lemma remove_foods_frame:
  "snakes (foldl remove_food g fs) = snakes g \<and> game_mode (foldl remove_food g fs) = game_mode g
   \<and> eliminated_snakes (foldl remove_food g fs) = eliminated_snakes g
   \<and> active_snakes (foldl remove_food g fs) = active_snakes g
   \<and> scores (foldl remove_food g fs) = scores g"
  by (induction fs arbitrary: g) (simp_all add: remove_food_def)

lemma check_food_collisions_frame:
  assumes "check_food_collisions g = Inr (evs, g')"
  shows "only_eliminates g g' \<and> eliminated_snakes g' = eliminated_snakes g
       \<and> active_snakes g' = active_snakes g \<and> crashed evs = {}"
proof -
  from assms obtain rem g1 where
    f: "fold_err food_step ([], [], g) (food_items g) = Inr (evs, rem, g1)"
    and g': "g' = foldl remove_food g1 rem"
    by (auto simp: check_food_collisions_def split: sum.splits)
  let ?P = "\<lambda>st. case st of (e, r, h) \<Rightarrow> only_eliminates g h \<and> eliminated_snakes h = eliminated_snakes g
       \<and> active_snakes h = active_snakes g \<and> crashed e = {}"
  have "?P (evs, rem, g1)"
  proof (rule fold_err_invariant [OF f, where P = ?P])
    show "?P ([], [], g)" by (simp add: only_eliminates_refl crashed_simps)
  next
    fix s x s'
    assume a: "?P s" and b: "food_step s x = Inr s'"
    obtain e1 r1 h1 where s: "s = (e1, r1, h1)" by (cases s)
    obtain e2 r2 h2 where s': "s' = (e2, r2, h2)" by (cases s')
    from food_step_frame [OF b [unfolded s s']] a
    show "?P s'"
      unfolding s s' using only_eliminates_trans by auto
  qed
  then have 1: "only_eliminates g g1" "eliminated_snakes g1 = eliminated_snakes g"
    "active_snakes g1 = active_snakes g" "crashed evs = {}" by simp_all
  have "only_eliminates g1 g'"
    by (rule only_eliminates_same) (simp_all add: g' remove_foods_frame snake_ids_def)
  with 1 show ?thesis
    using only_eliminates_trans by (auto simp: g' remove_foods_frame)
qed

lemma update_Inr_D:
  assumes "update rt dt g = Some (Inr (evs, g'))"
  obtains evs1 g3 g4 food_events g5 where
    "fold_err move_step ([], update_ai_snakes rt (g\<lparr>game_time := game_time g + dt\<rparr>))
       (set_order rt (active_snakes (update_ai_snakes rt (g\<lparr>game_time := game_time g + dt\<rparr>))))
     = Inr (evs1, g3)"
    and "update_food rt 0 g3 = Some g4"
    and "check_food_collisions g4 = Inr (food_events, g5)"
    and "evs = evs1 @ food_events"
    and "g' = g5\<lparr>collision_events := collision_events g5 @ evs1 @ food_events\<rparr>"
  using assms unfolding update_def Let_def
  by (auto split: sum.splits option.splits)

lemma update_only_eliminates:
  assumes "update rt dt g = Some (Inr (evs, g'))"
  shows "only_eliminates g g'"
proof -
  let ?g2 = "update_ai_snakes rt (g\<lparr>game_time := game_time g + dt\<rparr>)"
  from assms obtain evs1 g3 g4 food_events g5 where
    mv: "fold_err move_step ([], ?g2) (set_order rt (active_snakes ?g2)) = Inr (evs1, g3)"
    and uf: "update_food rt 0 g3 = Some g4"
    and cf: "check_food_collisions g4 = Inr (food_events, g5)"
    and g': "g' = g5\<lparr>collision_events := collision_events g5 @ evs1 @ food_events\<rparr>"
    by (rule update_Inr_D)
  have 0: "only_eliminates g (g\<lparr>game_time := game_time g + dt\<rparr>)"
    by (rule only_eliminates_same) (simp_all add: snake_ids_def)
  have 1: "only_eliminates g ?g2"
    by (rule only_eliminates_trans [OF 0 update_ai_snakes_only_eliminates])
  have "only_eliminates g (snd (evs1, g3))"
  proof (rule fold_err_invariant [OF mv, where P = "\<lambda>st. only_eliminates g (snd st)"])
    show "only_eliminates g (snd ([], ?g2))" using 1 by simp
  next
    fix s x s'
    assume a: "only_eliminates g (snd s)" and b: "move_step s x = Inr s'"
    obtain e1 h1 where s: "s = (e1, h1)" by (cases s)
    obtain e2 h2 where s': "s' = (e2, h2)" by (cases s')
    from move_step_only_eliminates [OF b [unfolded s s']] a
    show "only_eliminates g (snd s')"
      unfolding s s' using only_eliminates_trans by auto
  qed
  then have 2: "only_eliminates g g3" by simp
  have 3: "only_eliminates g3 g4"
    by (rule only_eliminates_same) (simp_all add: update_food_frame [OF uf] snake_ids_def)
  have 4: "only_eliminates g4 g5"
    using check_food_collisions_frame [OF cf] by simp
  have 5: "only_eliminates g5 g'"
    by (rule only_eliminates_same) (simp_all add: g' snake_ids_def)
  show ?thesis
    by (rule only_eliminates_trans [OF only_eliminates_trans [OF only_eliminates_trans [OF 2 3] 4] 5])
qed

lemma score_race_movement:
  assumes m: "game_mode g = SCORE_RACE"
    and h: "handle_snake_movement sid snake tail_position g = Inr (evs, g')"
  shows "eliminated_snakes g' = eliminated_snakes g \<union> crashed evs
       \<and> active_snakes g' = active_snakes g - crashed evs"
proof (cases "get_head snake")
  case None
  with h have "g' = g" "evs = []" by (simp_all add: handle_snake_movement_def)
  then show ?thesis by (simp add: crashed_simps)
next
  case (Some head)
  show ?thesis
  proof (cases "is_valid_position (grid g) head")
    case False
    with Some h obtain e: "handle_snake_elimination sid g = Inr g'"
      and evs: "evs = [\<lparr>event_snake_id = sid, collision_type = WALL,
                         event_position = head, other_snake_id = None\<rparr>]"
      by (auto simp: handle_snake_movement_def split: sum.splits)
    from handle_snake_elimination_Inr(1,2) [OF e] show ?thesis
      by (simp add: evs crashed_simps)
  next
    case True
    show ?thesis
    proof (cases "check_self_collision snake")
      case c: True
      with True Some h obtain e: "handle_snake_elimination sid g = Inr g'"
        and evs: "evs = [\<lparr>event_snake_id = sid, collision_type = SELF,
                           event_position = head, other_snake_id = None\<rparr>]"
        by (auto simp: handle_snake_movement_def split: sum.splits)
      from handle_snake_elimination_Inr(1,2) [OF e] show ?thesis
        by (simp add: evs crashed_simps)
    next
      case c: False
      from score_race_movement_no_elimination [OF m Some True c, of sid tail_position] h
      obtain g1 where "evs = map (\<lambda>(other_id, other_snake).
                       \<lparr>event_snake_id = sid, collision_type = SNAKE,
                        event_position = head, other_snake_id = Some other_id\<rparr>)
                  (filter (\<lambda>(other_id, other_snake). other_id \<noteq> sid \<and> occupies_position other_snake head)
                     (snakes g))"
        and s: "active_snakes g' = active_snakes g" "eliminated_snakes g' = eliminated_snakes g"
        by auto
      then have "crashed evs = {}"
        by (intro crashed_none) auto
      with s show ?thesis by simp
    qed
  qed
qed

lemma score_race_move_step:
  assumes m: "game_mode g = SCORE_RACE"
    and h: "move_step (evs, g) sid = Inr (evs', g')"
  shows "\<exists>new. evs' = evs @ new \<and> eliminated_snakes g' = eliminated_snakes g \<union> crashed new
       \<and> active_snakes g' = active_snakes g - crashed new"
proof -
  from h obtain snake where "map_of (snakes g) sid = Some snake"
    by (auto simp: move_step_def split: option.splits)
  moreover obtain tail_position snake' where "snake_move snake = (tail_position, snake')"
    by (cases "snake_move snake")
  ultimately obtain snake_events where
    hm: "handle_snake_movement sid snake' tail_position (g\<lparr>snakes := AList.update sid snake' (snakes g)\<rparr>)
          = Inr (snake_events, g')"
    and evs': "evs' = evs @ snake_events"
    using h by (auto simp: move_step_def split: sum.splits)
  have "game_mode (g\<lparr>snakes := AList.update sid snake' (snakes g)\<rparr>) = SCORE_RACE"
    using m by simp
  from score_race_movement [OF this hm] evs' show ?thesis by simp
qed

lemma only_eliminates_consistent:
  assumes "only_eliminates g g'" and "sets_consistent g"
  shows "sets_consistent g'"
  using assms unfolding only_eliminates_def sets_consistent_def by auto

lemma add_player_snake_sets:
  "snake_ids g \<subseteq> snake_ids (snd (add_player_snake sid p d g))
   \<and> eliminated_snakes (snd (add_player_snake sid p d g)) = eliminated_snakes g
   \<and> (sets_consistent g \<longrightarrow> sets_consistent (snd (add_player_snake sid p d g)))"
  by (auto simp: add_player_snake_def Let_def sets_consistent_def snake_ids_def dom_update)

lemma add_ai_snake_sets:
  "snake_ids g \<subseteq> snake_ids (snd (add_ai_snake sid p pers diff now g))
   \<and> eliminated_snakes (snd (add_ai_snake sid p pers diff now g)) = eliminated_snakes g
   \<and> (sets_consistent g \<longrightarrow> sets_consistent (snd (add_ai_snake sid p pers diff now g)))"
  by (auto simp: add_ai_snake_def Let_def sets_consistent_def snake_ids_def dom_update)

lemma remove_snake_sets:
  "snake_ids (snd (remove_snake sid g)) = snake_ids g
   \<and> eliminated_snakes g \<subseteq> eliminated_snakes (snd (remove_snake sid g))
   \<and> (sets_consistent g \<longrightarrow> sets_consistent (snd (remove_snake sid g)))"
  by (auto simp: remove_snake_def sets_consistent_def snake_ids_def)

lemma game_step_sets:
  assumes "game_step g g'"
  shows "snake_ids g \<subseteq> snake_ids g' \<and> eliminated_snakes g \<subseteq> eliminated_snakes g'
       \<and> (sets_consistent g \<longrightarrow> sets_consistent g')"
  using assms
proof cases
  case (step_add_player sid start_position start_direction)
  then show ?thesis using add_player_snake_sets [of g sid start_position start_direction] by simp
next
  case (step_add_ai sid start_position pers diff now)
  then show ?thesis using add_ai_snake_sets [of g sid start_position pers diff now] by simp
next
  case (step_remove sid)
  then show ?thesis using remove_snake_sets [of sid g] by simp
next
  case (step_update rt dt evs)
  from update_only_eliminates [OF this] show ?thesis
    using only_eliminates_consistent by (auto simp: only_eliminates_def)
qed

lemma game_steps_sets:
  assumes "game_step\<^sup>*\<^sup>* g g'"
  shows "snake_ids g \<subseteq> snake_ids g' \<and> eliminated_snakes g \<subseteq> eliminated_snakes g'
       \<and> (sets_consistent g \<longrightarrow> sets_consistent g')"
  using assms
proof (induction rule: rtranclp_induct)
  case base
  show ?case by simp
next
  case (step y z)
  from game_step_sets [OF step.hyps(2)] step.IH show ?case by blast
qed

lemma init_consistent: "sets_consistent (MultiSnakeGame_init gr m)"
  by (simp add: sets_consistent_def MultiSnakeGame_init_def)

lemma find_map_keys:
  "map_option fst (find (\<lambda>(k, s). Q k (h s)) xs)
   = map_option fst (find (\<lambda>(k, v). Q k v) (map (\<lambda>(k, s). (k, h s)) xs))"
  by (induction xs) auto

lemma eater_id_head_table:
  "eater_id g food =
     map_option fst (find (\<lambda>(sid, hd). sid \<in> active_snakes g \<and> hd = Some (position food)) (head_table g))"
  unfolding eater_id_def first_eater_def head_table_def
  by (rule find_map_keys [where Q = "\<lambda>sid hd. sid \<in> active_snakes g \<and> hd = Some (position food)"])

lemma eater_id_cong:
  "head_table g1 = head_table g \<Longrightarrow> active_snakes g1 = active_snakes g \<Longrightarrow>
   eater_id g1 food = eater_id g food"
  by (simp add: eater_id_head_table)

lemma eater_id_SomeD:
  assumes "eater_id g food = Some w"
  shows "w \<in> active_snakes g" and "(w, Some (position food)) \<in> set (head_table g)"
    and "\<exists>sw. first_eater g food = Some (w, sw) \<and> (w, sw) \<in> set (snakes g)
           \<and> get_head sw = Some (position food)"
proof -
  from assms obtain sw where f: "first_eater g food = Some (w, sw)"
    by (auto simp: eater_id_def)
  from find_Some_mem [OF f [unfolded first_eater_def]]
  have m: "(w, sw) \<in> set (snakes g)" and a: "w \<in> active_snakes g"
    and h: "get_head sw = Some (position food)" by auto
  show "w \<in> active_snakes g" by (rule a)
  from m h show "(w, Some (position food)) \<in> set (head_table g)"
    by (force simp: head_table_def)
  from f m h show "\<exists>sw. first_eater g food = Some (w, sw) \<and> (w, sw) \<in> set (snakes g)
           \<and> get_head sw = Some (position food)" by blast
qed

lemma update_same_projection:
  assumes "distinct (map fst xs)" and "(k, v) \<in> set xs" and "h v' = h v"
  shows "map (\<lambda>(k, s). (k, h s)) (AList.update k v' xs) = map (\<lambda>(k, s). (k, h s)) xs"
  using assms
proof (induction xs)
  case Nil
  then show ?case by simp
next
  case (Cons x xs)
  obtain k1 v1 where x: "x = (k1, v1)" by (cases x)
  show ?case
  proof (cases "k1 = k")
    case True
    with Cons.prems x have "v1 = v" by (auto simp: image_iff)
    with True x Cons.prems(3) show ?thesis by simp
  next
    case False
    with Cons x show ?thesis by auto
  qed
qed


lemma food_step_no_eater:
  "eater_id g food = None \<Longrightarrow> food_step (evs, rem, g) food = Inr (evs, rem, g)"
  by (simp add: food_step_def eater_id_def)

lemma food_step_eater:
  assumes ok: "dictionaries_ok g" and e: "eater_id g food = Some w"
  shows "\<exists>sc g1. scores g w = Some sc
     \<and> food_step (evs, rem, g) food =
         Inr (evs @ [\<lparr>event_snake_id = w, collision_type = FOOD,
                      event_position = position food, other_snake_id = None\<rparr>],
              rem @ [food], g1)
     \<and> dictionaries_ok g1 \<and> head_table g1 = head_table g \<and> active_snakes g1 = active_snakes g
     \<and> food_items g1 = food_items g \<and> scores g1 = (scores g)(w \<mapsto> sc + point_value food)"
proof -
  from eater_id_SomeD(3) [OF e] obtain sw where f: "first_eater g food = Some (w, sw)"
    and m: "(w, sw) \<in> set (snakes g)" by blast
  from m have "w \<in> snake_ids g" by (force simp: snake_ids_def)
  with ok obtain sc where sc: "scores g w = Some sc"
    by (auto simp: dictionaries_ok_def)
  let ?g1 = "g\<lparr>snakes := AList.update w (grow 1 sw) (snakes g),
               scores := (scores g)(w \<mapsto> sc + point_value food)\<rparr>"
  from ok have d: "distinct (map fst (snakes g))" by (simp add: dictionaries_ok_def)
  have st: "food_step (evs, rem, g) food =
         Inr (evs @ [\<lparr>event_snake_id = w, collision_type = FOOD,
                      event_position = position food, other_snake_id = None\<rparr>],
              rem @ [food], ?g1)"
    by (simp add: food_step_def f sc)
  have k: "fst ` set (AList.update w (grow 1 sw) (snakes g)) = fst ` set (snakes g)"
    using m by (force simp: dom_update)
  have ok1: "dictionaries_ok ?g1"
    using ok by (auto simp: dictionaries_ok_def distinct_update snake_ids_def k)
  have ht: "head_table ?g1 = head_table g"
    unfolding head_table_def
    using update_same_projection [OF d m, of get_head "grow 1 sw"]
    by (simp add: grow_def get_head_def)
  from sc st ok1 ht show ?thesis by (intro exI [of _ sc] exI [of _ ?g1]) simp
qed

lemma food_fold:
  assumes "dictionaries_ok g"
  shows "\<exists>evs' g'.
      fold_err food_step (evs, rem, g) fs =
        Inr (evs @ evs', rem @ filter (\<lambda>f. eater_id g f \<noteq> None) fs, g')
    \<and> dictionaries_ok g' \<and> head_table g' = head_table g \<and> active_snakes g' = active_snakes g
    \<and> food_items g' = food_items g
    \<and> (\<forall>e \<in> set evs'. collision_type e = FOOD \<and> event_position e \<in> position ` set fs)
    \<and> (\<forall>s. (\<forall>f \<in> set fs. eater_id g f \<noteq> Some s) \<longrightarrow> scores g' s = scores g s)"
  using assms
proof (induction fs arbitrary: evs rem g)
  case Nil
  then show ?case by simp
next
  case (Cons food fs)
  show ?case
  proof (cases "eater_id g food")
    case None
    from Cons.IH [OF Cons.prems, of evs rem] obtain evs' g' where
      IH: "fold_err food_step (evs, rem, g) fs =
        Inr (evs @ evs', rem @ filter (\<lambda>f. eater_id g f \<noteq> None) fs, g')"
      "dictionaries_ok g'" "head_table g' = head_table g" "active_snakes g' = active_snakes g"
      "food_items g' = food_items g"
      "\<forall>e \<in> set evs'. collision_type e = FOOD \<and> event_position e \<in> position ` set fs"
      "\<forall>s. (\<forall>f \<in> set fs. eater_id g f \<noteq> Some s) \<longrightarrow> scores g' s = scores g s"
      by blast
    show ?thesis
      using IH None
      by (intro exI [of _ evs'] exI [of _ g']) (simp add: food_step_no_eater)
  next
    case (Some w)
    let ?ev = "\<lparr>event_snake_id = w, collision_type = FOOD,
                 event_position = position food, other_snake_id = None\<rparr>"
    from food_step_eater [OF Cons.prems Some, of evs rem] obtain sc g1 where
      st: "food_step (evs, rem, g) food = Inr (evs @ [?ev], rem @ [food], g1)"
      and g1: "dictionaries_ok g1" "head_table g1 = head_table g" "active_snakes g1 = active_snakes g"
        "food_items g1 = food_items g" "scores g1 = (scores g)(w \<mapsto> sc + point_value food)"
      by blast
    have same: "eater_id g1 f = eater_id g f" for f
      by (rule eater_id_cong [OF g1(2,3)])
    from Cons.IH [OF g1(1), of "evs @ [?ev]" "rem @ [food]"] obtain evs' g' where
      IH: "fold_err food_step (evs @ [?ev], rem @ [food], g1) fs =
        Inr ((evs @ [?ev]) @ evs', (rem @ [food]) @ filter (\<lambda>f. eater_id g1 f \<noteq> None) fs, g')"
      "dictionaries_ok g'" "head_table g' = head_table g1" "active_snakes g' = active_snakes g1"
      "food_items g' = food_items g1"
      "\<forall>e \<in> set evs'. collision_type e = FOOD \<and> event_position e \<in> position ` set fs"
      "\<forall>s. (\<forall>f \<in> set fs. eater_id g1 f \<noteq> Some s) \<longrightarrow> scores g' s = scores g1 s"
      by blast
    show ?thesis
    proof (intro exI [of _ "?ev # evs'"] exI [of _ g'] conjI)
      show "fold_err food_step (evs, rem, g) (food # fs) =
          Inr (evs @ ?ev # evs', rem @ filter (\<lambda>f. eater_id g f \<noteq> None) (food # fs), g')"
        using st IH(1) Some by (simp add: same)
      show "dictionaries_ok g'" by (rule IH(2))
      show "head_table g' = head_table g" using IH(3) g1(2) by simp
      show "active_snakes g' = active_snakes g" using IH(4) g1(3) by simp
      show "food_items g' = food_items g" using IH(5) g1(4) by simp
      show "\<forall>e \<in> set (?ev # evs'). collision_type e = FOOD \<and> event_position e \<in> position ` set (food # fs)"
        using IH(6) by auto
      show "\<forall>s. (\<forall>f \<in> set (food # fs). eater_id g f \<noteq> Some s) \<longrightarrow> scores g' s = scores g s"
      proof (intro allI impI)
        fix s
        assume a: "\<forall>f \<in> set (food # fs). eater_id g f \<noteq> Some s"
        with Some have "s \<noteq> w" by auto
        moreover from a have "\<forall>f \<in> set fs. eater_id g1 f \<noteq> Some s" by (simp add: same)
        ultimately show "scores g' s = scores g s"
          using IH(7) g1(5) by simp
      qed
    qed
  qed
qed






lemma collision_keeps_dictionaries:
  assumes "handle_snake_collision snake1_id snake2_id pos g = Inr g'"
  shows "snakes g' = snakes g \<and> scores g' = scores g"
proof (cases "game_mode g")
  case SURVIVAL
  with assms obtain g1 where 1: "handle_snake_elimination snake1_id g = Inr g1"
    and 2: "handle_snake_elimination snake2_id g1 = Inr g'"
    by (auto simp: handle_snake_collision_def split: sum.splits)
  from handle_snake_elimination_Inr(3,5) [OF 1] handle_snake_elimination_Inr(3,5) [OF 2]
  show ?thesis by simp
next
  case FREE_FOR_ALL
  with assms have "handle_snake_elimination snake1_id g = Inr g' \<or> g' = g"
    by (auto simp: handle_snake_collision_def split: option.splits if_splits)
  then show ?thesis
    using handle_snake_elimination_Inr(3,5) by auto
next
  case SCORE_RACE
  with assms show ?thesis by (simp add: handle_snake_collision_def)
next
  case COOPERATIVE
  with assms show ?thesis by (simp add: handle_snake_collision_def)
qed

lemma collision_step_keeps_dictionaries:
  assumes "snake_collision_step sid head (evs, g) other = Inr (evs', g')"
    and "\<forall>e \<in> set evs. collision_type e \<noteq> FOOD"
  shows "snakes g' = snakes g \<and> scores g' = scores g \<and> (\<forall>e \<in> set evs'. collision_type e \<noteq> FOOD)"
proof -
  obtain other_id other_snake where o: "other = (other_id, other_snake)" by (cases other)
  from assms(1) have "(handle_snake_collision sid other_id head g = Inr g'
        \<and> evs' = evs @ [\<lparr>event_snake_id = sid, collision_type = SNAKE,
                           event_position = head, other_snake_id = Some other_id\<rparr>])
      \<or> (g' = g \<and> evs' = evs)"
    unfolding o snake_collision_step_def by (auto split: if_splits sum.splits)
  then show ?thesis
    using collision_keeps_dictionaries assms(2) by auto
qed

lemma movement_keeps_dictionaries:
  assumes "handle_snake_movement sid snake tail_position g = Inr (evs, g')"
  shows "snakes g' = snakes g \<and> scores g' = scores g \<and> (\<forall>e \<in> set evs. collision_type e \<noteq> FOOD)"
proof (cases "get_head snake")
  case None
  with assms show ?thesis by (simp add: handle_snake_movement_def)
next
  case (Some head)
  show ?thesis
  proof (cases "\<not> is_valid_position (grid g) head \<or> check_self_collision snake")
    case True
    with Some assms have "handle_snake_elimination sid g = Inr g'"
      and "\<forall>e \<in> set evs. collision_type e \<noteq> FOOD"
      by (auto simp: handle_snake_movement_def split: sum.splits if_splits)
    with handle_snake_elimination_Inr(3,5) show ?thesis by auto
  next
    case False
    with Some assms obtain g1 where
      f: "fold_err (snake_collision_step sid head) ([], g) (snakes g) = Inr (evs, g1)"
      and g': "g' = g1\<lparr>grid := occupy head (case tail_position of None \<Rightarrow> grid g1 | Some t \<Rightarrow> vacate t (grid g1))\<rparr>"
      by (auto simp: handle_snake_movement_def Let_def split: sum.splits)
    let ?P = "\<lambda>st. case st of (e, h) \<Rightarrow> snakes h = snakes g \<and> scores h = scores g
        \<and> (\<forall>x \<in> set e. collision_type x \<noteq> FOOD)"
    have "?P (evs, g1)"
    proof (rule fold_err_invariant [OF f, where P = ?P])
      show "?P ([], g)" by simp
    next
      fix s x s'
      assume a: "?P s" and b: "snake_collision_step sid head s x = Inr s'"
      obtain e1 h1 where s: "s = (e1, h1)" by (cases s)
      obtain e2 h2 where s': "s' = (e2, h2)" by (cases s')
      from a have "\<forall>e \<in> set e1. collision_type e \<noteq> FOOD" by (simp add: s)
      from collision_step_keeps_dictionaries [OF b [unfolded s s'] this] a
      show "?P s'" by (simp add: s s')
    qed
    then show ?thesis by (simp add: g')
  qed
qed

lemma update_keeps_keys:
  "k \<in> fst ` set al \<Longrightarrow> map fst (AList.update k v al) = map fst al"
  by (simp add: update_keys)

lemma move_step_keeps_dictionaries:
  assumes "move_step (evs, g) sid = Inr (evs', g')"
    and "\<forall>e \<in> set evs. collision_type e \<noteq> FOOD"
  shows "map fst (snakes g') = map fst (snakes g) \<and> scores g' = scores g
       \<and> (\<forall>e \<in> set evs'. collision_type e \<noteq> FOOD)"
proof -
  from assms(1) obtain snake where m: "map_of (snakes g) sid = Some snake"
    by (auto simp: move_step_def split: option.splits)
  obtain tail_position snake' where mv: "snake_move snake = (tail_position, snake')"
    by (cases "snake_move snake")
  let ?g1 = "g\<lparr>snakes := AList.update sid snake' (snakes g)\<rparr>"
  from assms(1) m mv obtain snake_events where
    h: "handle_snake_movement sid snake' tail_position ?g1 = Inr (snake_events, g')"
    and e: "evs' = evs @ snake_events"
    by (auto simp: move_step_def split: sum.splits)
  from map_of_SomeD [OF m] have "sid \<in> fst ` set (snakes g)" by force
  then have "map fst (snakes ?g1) = map fst (snakes g)" by (simp add: update_keeps_keys)
  with movement_keeps_dictionaries [OF h] assms(2) e show ?thesis by auto
qed


lemma update_state_before_food:
  assumes ok: "dictionaries_ok g0"
    and mv: "fold_err move_step ([], update_ai_snakes rt (g0\<lparr>game_time := game_time g0 + dt\<rparr>)) order
              = Inr (move_events, g3)"
    and uf: "update_food rt 0 g3 = Some g"
  shows "dictionaries_ok g \<and> scores g = scores g0 \<and> (\<forall>e \<in> set move_events. collision_type e \<noteq> FOOD)"
proof -
  let ?g2 = "update_ai_snakes rt (g0\<lparr>game_time := game_time g0 + dt\<rparr>)"
  have keys2: "map fst (snakes ?g2) = map fst (snakes g0)"
    by (simp add: update_ai_snakes_def case_prod_unfold if_distrib [of fst] cong: if_cong)
  let ?P = "\<lambda>st. case st of (e, h) \<Rightarrow> map fst (snakes h) = map fst (snakes g0) \<and> scores h = scores g0
      \<and> (\<forall>x \<in> set e. collision_type x \<noteq> FOOD)"
  have "?P (move_events, g3)"
  proof (rule fold_err_invariant [OF mv, where P = ?P])
    show "?P ([], ?g2)" using keys2 by (simp add: update_ai_snakes_def)
  next
    fix s x s'
    assume a: "?P s" and b: "move_step s x = Inr s'"
    obtain e1 h1 where s: "s = (e1, h1)" by (cases s)
    obtain e2 h2 where s': "s' = (e2, h2)" by (cases s')
    from a have "\<forall>e \<in> set e1. collision_type e \<noteq> FOOD" by (simp add: s)
    from move_step_keeps_dictionaries [OF b [unfolded s s'] this] a
    show "?P s'" by (simp add: s s')
  qed
  with update_food_frame [OF uf]
  have k: "map fst (snakes g) = map fst (snakes g0)" and sc: "scores g = scores g0"
    and nf: "\<forall>e \<in> set move_events. collision_type e \<noteq> FOOD" by simp_all
  have "snake_ids g = snake_ids g0"
    unfolding snake_ids_def using k by (metis set_map)
  with ok k sc have "dictionaries_ok g" by (simp add: dictionaries_ok_def)
  with sc nf show ?thesis by simp
qed



lemma check_food_collisions_keeps_dictionaries:
  assumes "dictionaries_ok g"
  shows "\<exists>evs g'. check_food_collisions g = Inr (evs, g') \<and> dictionaries_ok g'"
proof -
  from food_fold [OF assms, of "[]" "[]" "food_items g"] obtain evs g1 where
    f: "fold_err food_step ([], [], g) (food_items g) =
          Inr (evs, filter (\<lambda>f. eater_id g f \<noteq> None) (food_items g), g1)"
    and ok: "dictionaries_ok g1"
    by auto
  have "dictionaries_ok (foldl remove_food g1 rem)" for rem
    using ok by (simp add: dictionaries_ok_def snake_ids_def remove_foods_frame)
  with f show ?thesis
    by (simp add: check_food_collisions_def)
qed

lemma update_keeps_dictionaries:
  assumes ok: "dictionaries_ok g" and up: "update rt dt g = Some (Inr (evs, g'))"
  shows "dictionaries_ok g'"
proof -
  let ?g2 = "update_ai_snakes rt (g\<lparr>game_time := game_time g + dt\<rparr>)"
  from up obtain move_events g3 g4 food_events g5 where
    mv: "fold_err move_step ([], ?g2) (set_order rt (active_snakes ?g2)) = Inr (move_events, g3)"
    and uf: "update_food rt 0 g3 = Some g4"
    and cf: "check_food_collisions g4 = Inr (food_events, g5)"
    and g': "g' = g5\<lparr>collision_events := collision_events g5 @ move_events @ food_events\<rparr>"
    by (rule update_Inr_D)
  from update_state_before_food [OF ok mv uf] have "dictionaries_ok g4" by simp
  from check_food_collisions_keeps_dictionaries [OF this] cf have "dictionaries_ok g5" by auto
  then show ?thesis by (simp add: g' dictionaries_ok_def snake_ids_def)
qed

lemma game_step_keeps_dictionaries:
  assumes "game_step g g'" and "dictionaries_ok g"
  shows "dictionaries_ok g'"
  using assms
proof cases
  case (step_add_player sid start_position start_direction)
  with assms(2) show ?thesis
    by (auto simp: add_player_snake_def Let_def dictionaries_ok_def snake_ids_def
        distinct_update dom_update)
next
  case (step_add_ai sid start_position pers diff now)
  with assms(2) show ?thesis
    by (auto simp: add_ai_snake_def Let_def dictionaries_ok_def snake_ids_def
        distinct_update dom_update)
next
  case (step_remove sid)
  with assms(2) show ?thesis
    by (auto simp: remove_snake_def dictionaries_ok_def snake_ids_def)
next
  case (step_update rt dt evs)
  from update_keeps_dictionaries [OF assms(2) this] show ?thesis .
qed

lemma reachable_dictionaries_ok:
  assumes "game_step\<^sup>*\<^sup>* (MultiSnakeGame_init gr m) g"
  shows "dictionaries_ok g"
  using assms
proof (induction rule: rtranclp_induct)
  case base
  show ?case by (simp add: dictionaries_ok_def MultiSnakeGame_init_def snake_ids_def)
next
  case (step y z)
  from game_step_keeps_dictionaries [OF step.hyps(2) step.IH] show ?case .
qed

lemma fold_err_returns:
  assumes "P s"
    and "\<And>s x. P s \<Longrightarrow> x \<in> set xs \<Longrightarrow> \<exists>s'. f s x = Inr s' \<and> P s'"
  shows "\<exists>s'. fold_err f s xs = Inr s' \<and> P s'"
  using assms
proof (induction xs arbitrary: s)
  case Nil
  then show ?case by simp
next
  case (Cons x xs)
  from Cons.prems(2) [OF Cons.prems(1), of x] obtain s1 where s1: "f s x = Inr s1" "P s1"
    by auto
  have "\<exists>s'. fold_err f s1 xs = Inr s' \<and> P s'"
    by (rule Cons.IH [OF s1(2)]) (rule Cons.prems(2), assumption, simp)
  with s1(1) show ?case by simp
qed

lemma known_snake:
  "sid \<in> snake_ids g \<Longrightarrow> \<exists>snake. map_of (snakes g) sid = Some snake"
  by (cases "map_of (snakes g) sid") (auto simp: snake_ids_def map_of_eq_None_iff)

lemma elimination_returns:
  assumes "sid \<in> snake_ids g"
  shows "\<exists>g'. handle_snake_elimination sid g = Inr g'"
  using known_snake [OF assms] by (auto simp: handle_snake_elimination_def Let_def)

lemma collision_returns:
  assumes "snake1_id \<in> snake_ids g" and "snake2_id \<in> snake_ids g"
  shows "\<exists>g'. handle_snake_collision snake1_id snake2_id pos g = Inr g'"
proof (cases "game_mode g")
  case SURVIVAL
  from elimination_returns [OF assms(1)] obtain g1 where
    1: "handle_snake_elimination snake1_id g = Inr g1" by blast
  from handle_snake_elimination_Inr(3) [OF 1] assms(2) have "snake2_id \<in> snake_ids g1"
    by (simp add: snake_ids_def)
  from elimination_returns [OF this] 1 SURVIVAL show ?thesis
    by (auto simp: handle_snake_collision_def)
next
  case FREE_FOR_ALL
  with known_snake [OF assms(1)] elimination_returns [OF assms(1)] show ?thesis
    by (auto simp: handle_snake_collision_def)
next
  case SCORE_RACE
  then show ?thesis by (simp add: handle_snake_collision_def)
next
  case COOPERATIVE
  then show ?thesis by (simp add: handle_snake_collision_def)
qed

lemma movement_returns:
  assumes "sid \<in> snake_ids g"
  shows "\<exists>r. handle_snake_movement sid snake tail_position g = Inr r"
proof (cases "get_head snake")
  case None
  then show ?thesis by (simp add: handle_snake_movement_def)
next
  case (Some head)
  from elimination_returns [OF assms] obtain ge where
    e: "handle_snake_elimination sid g = Inr ge" by blast
  let ?P = "\<lambda>st :: CollisionEvent list \<times> MultiSnakeGame. snakes (snd st) = snakes g \<and> (\<forall>e \<in> set (fst st). collision_type e \<noteq> FOOD)"
  have "\<exists>s'. fold_err (snake_collision_step sid head) ([], g) (snakes g) = Inr s' \<and> ?P s'"
  proof (rule fold_err_returns [where P = ?P])
    show "?P ([], g)" by simp
  next
    fix s x
    assume p: "?P s" and x: "x \<in> set (snakes g)"
    obtain e1 h1 where s: "s = (e1, h1)" by (cases s)
    obtain other_id other_snake where o: "x = (other_id, other_snake)" by (cases x)
    from p s have sn: "snakes h1 = snakes g" and nf: "\<forall>e \<in> set e1. collision_type e \<noteq> FOOD"
      by simp_all
    from x o have "other_id \<in> snake_ids h1" by (force simp: snake_ids_def sn)
    moreover from assms have "sid \<in> snake_ids h1" by (simp add: snake_ids_def sn)
    ultimately obtain h2 where c: "handle_snake_collision sid other_id head h1 = Inr h2"
      using collision_returns by blast
    then have "\<exists>s'. snake_collision_step sid head (e1, h1) x = Inr s'"
      by (simp add: snake_collision_step_def o)
    then obtain s' where st: "snake_collision_step sid head (e1, h1) x = Inr s'"
      by blast
    obtain e2 h3 where s': "s' = (e2, h3)" by (cases s')
    from collision_step_keeps_dictionaries [OF st [unfolded s'] nf] sn
    have "?P s'" by (simp add: s')
    with st s show "\<exists>s'. snake_collision_step sid head s x = Inr s' \<and> ?P s'" by blast
  qed
  then obtain s' where "fold_err (snake_collision_step sid head) ([], g) (snakes g) = Inr s'"
    by blast
  with Some e show ?thesis
    by (cases s') (simp add: handle_snake_movement_def Let_def)
qed

lemma move_step_returns:
  assumes "sid \<in> snake_ids g"
  shows "\<exists>r. move_step (evs, g) sid = Inr r"
proof -
  from known_snake [OF assms] obtain snake where m: "map_of (snakes g) sid = Some snake" by blast
  obtain tail_position snake' where mv: "snake_move snake = (tail_position, snake')"
    by (cases "snake_move snake")
  let ?g1 = "g\<lparr>snakes := AList.update sid snake' (snakes g)\<rparr>"
  have "sid \<in> snake_ids ?g1" by (simp add: snake_ids_def dom_update)
  from movement_returns [OF this, of snake' tail_position] obtain r where
    "handle_snake_movement sid snake' tail_position ?g1 = Inr r" by blast
  with m mv show ?thesis
    by (cases r) (simp add: move_step_def)
qed

lemma only_eliminates_known:
  "only_eliminates g g' \<Longrightarrow> sets_known g \<Longrightarrow> sets_known g'"
  unfolding only_eliminates_def sets_known_def by auto

lemma game_step_known:
  assumes "game_step g g'" and "sets_known g"
  shows "sets_known g'"
  using assms
proof cases
  case (step_add_player sid start_position start_direction)
  with assms(2) show ?thesis
    by (auto simp: add_player_snake_def Let_def sets_known_def snake_ids_def dom_update)
next
  case (step_add_ai sid start_position pers diff now)
  with assms(2) show ?thesis
    by (auto simp: add_ai_snake_def Let_def sets_known_def snake_ids_def dom_update)
next
  case (step_remove sid)
  with assms(2) show ?thesis
    by (auto simp: remove_snake_def sets_known_def snake_ids_def)
next
  case (step_update rt dt evs)
  from only_eliminates_known [OF update_only_eliminates [OF this] assms(2)] show ?thesis .
qed

lemma reachable_known:
  assumes "game_step\<^sup>*\<^sup>* (MultiSnakeGame_init gr m) g"
  shows "sets_known g"
  using assms
proof (induction rule: rtranclp_induct)
  case base
  show ?case by (simp add: sets_known_def MultiSnakeGame_init_def)
next
  case (step y z)
  from game_step_known [OF step.hyps(2) step.IH] show ?case .
qed

lemma update_never_raises:
  assumes r: "game_step\<^sup>*\<^sup>* (MultiSnakeGame_init gr m) g"
    and order: "set (set_order rt (active_snakes g)) \<subseteq> active_snakes g"
  shows "update rt dt g \<noteq> Some (Inl e)"
proof -
  let ?g2 = "update_ai_snakes rt (g\<lparr>game_time := game_time g + dt\<rparr>)"
  have a2: "active_snakes ?g2 = active_snakes g" by (simp add: update_ai_snakes_def)
  have "only_eliminates (g\<lparr>game_time := game_time g + dt\<rparr>) ?g2"
    by (rule update_ai_snakes_only_eliminates)
  then have ids2: "snake_ids ?g2 = snake_ids g"
    by (simp add: only_eliminates_def snake_ids_def)
  from reachable_known [OF r] have known: "active_snakes g \<subseteq> snake_ids g"
    by (simp add: sets_known_def)
  let ?P = "\<lambda>st :: CollisionEvent list \<times> MultiSnakeGame. snake_ids (snd st) = snake_ids g"
  have "\<exists>s'. fold_err move_step ([], ?g2) (set_order rt (active_snakes ?g2)) = Inr s' \<and> ?P s'"
  proof (rule fold_err_returns [where P = ?P])
    show "?P ([], ?g2)" using ids2 by simp
  next
    fix s x
    assume p: "?P s" and x: "x \<in> set (set_order rt (active_snakes ?g2))"
    obtain e1 h1 where s: "s = (e1, h1)" by (cases s)
    from x order known a2 p s have "x \<in> snake_ids h1" by auto
    from move_step_returns [OF this, of e1] obtain s' where st: "move_step (e1, h1) x = Inr s'"
      by blast
    obtain e2 h2 where s': "s' = (e2, h2)" by (cases s')
    from move_step_only_eliminates [OF st [unfolded s']] p s
    have "?P s'" by (simp add: s' only_eliminates_def)
    with st s show "\<exists>s'. move_step s x = Inr s' \<and> ?P s'" by blast
  qed
  then obtain move_events g3 where
    mv: "fold_err move_step ([], ?g2) (set_order rt (active_snakes ?g2)) = Inr (move_events, g3)"
    by auto
  show ?thesis
  proof (cases "update_food rt 0 g3")
    case None
    with mv show ?thesis by (simp add: update_def Let_def)
  next
    case (Some g4)
    from update_state_before_food [OF reachable_dictionaries_ok [OF r] mv Some]
    have "dictionaries_ok g4" by simp
    from check_food_collisions_keeps_dictionaries [OF this] obtain fe g5 where
      "check_food_collisions g4 = Inr (fe, g5)" by blast
    with mv Some show ?thesis by (simp add: update_def Let_def)
  qed
qed

subsection \<open>The claims\<close>

text \<open>
  C8. For a snake whose current direction is D, \<^verbatim>\<open>set_direction\<close> with the opposite of D
  returns false and leaves the snake (so its pending direction) unchanged; with any
  other direction it returns true and the pending direction becomes that direction,
  nothing else changing.
\<close>

theorem set_direction_reversal_guard:
  "set_direction (opposite (direction s)) s = (False, s) \<and>
   (n \<noteq> opposite (direction s) \<longrightarrow> set_direction n s = (True, s\<lparr>next_direction := n\<rparr>))"
  by (cases "direction s"; cases n) (simp_all add: set_direction_def)

theorem set_direction_reversal_guard_witness:
  "set_direction (opposite (direction (Snake_init (SquareCoord 5 5) RIGHT 3)))
     (Snake_init (SquareCoord 5 5) RIGHT 3) = (False, Snake_init (SquareCoord 5 5) RIGHT 3) \<and>
   UP \<noteq> opposite (direction (Snake_init (SquareCoord 5 5) RIGHT 3)) \<and>
   next_direction (snd (set_direction UP (Snake_init (SquareCoord 5 5) RIGHT 3))) = UP \<and>
   fst (set_direction UP (Snake_init (SquareCoord 5 5) RIGHT 3))"
  using set_direction_reversal_guard [of "Snake_init (SquareCoord 5 5) RIGHT 3" UP]
  by (simp add: Snake_init_def)

text \<open>
  C1. On the 5 by 6 grid with obstacles (0,1), (1,1), (2,1), (0,3), (0,4), (2,4),
  \<^verbatim>\<open>find_path_astar\<close> from (2,5) to (1,0) returns a path of 11 cells, although the
  filtered graph has a path of 9 cells, which is the breadth-first length. The returned
  path is a path of the graph, but not a shortest one.
\<close>

theorem find_path_astar_not_shortest:
  "find_path_astar \<lparr>width = 5, height = 6, occupied_cells = {}\<rparr> (SquareCoord 2 5) (SquareCoord 1 0)
     {SquareCoord 0 1, SquareCoord 1 1, SquareCoord 2 1, SquareCoord 0 3, SquareCoord 0 4, SquareCoord 2 4}
   = Some (Some [SquareCoord 2 5, SquareCoord 1 5, SquareCoord 1 4, SquareCoord 1 3,
                 SquareCoord 1 2, SquareCoord 2 2, SquareCoord 3 2, SquareCoord 3 1,
                 SquareCoord 3 0, SquareCoord 2 0, SquareCoord 1 0])
   \<and> bfs_path_length \<lparr>width = 5, height = 6, occupied_cells = {}\<rparr> (SquareCoord 2 5) (SquareCoord 1 0)
     {SquareCoord 0 1, SquareCoord 1 1, SquareCoord 2 1, SquareCoord 0 3, SquareCoord 0 4, SquareCoord 2 4}
   = Some 9
   \<and> is_grid_path \<lparr>width = 5, height = 6, occupied_cells = {}\<rparr>
     {SquareCoord 0 1, SquareCoord 1 1, SquareCoord 2 1, SquareCoord 0 3, SquareCoord 0 4, SquareCoord 2 4}
     [SquareCoord 2 5, SquareCoord 3 5, SquareCoord 3 4, SquareCoord 3 3, SquareCoord 3 2,
      SquareCoord 3 1, SquareCoord 3 0, SquareCoord 2 0, SquareCoord 1 0]"
  by code_simp

theorem find_path_astar_not_shortest_witness:
  "map_option (map_option length)
     (find_path_astar \<lparr>width = 5, height = 6, occupied_cells = {}\<rparr> (SquareCoord 2 5) (SquareCoord 1 0)
       {SquareCoord 0 1, SquareCoord 1 1, SquareCoord 2 1, SquareCoord 0 3, SquareCoord 0 4, SquareCoord 2 4})
   = Some (Some 11)"
  using find_path_astar_not_shortest by simp

text \<open>
  C3. \<^verbatim>\<open>AISnake.__init__\<close> with difficulty -1 clamps the difficulty to 0.1, but takes
  \<^verbatim>\<open>mistake_chance\<close> from the unclamped argument (2 instead of 0.9) and sets
  \<^verbatim>\<open>decision_delay\<close> to the constant 0.1 (instead of 0.185); with difficulty 5 it clamps
  to 1, with \<^verbatim>\<open>mistake_chance\<close> -4 (instead of 0) and \<^verbatim>\<open>decision_delay\<close> 0.1 (instead of
  0.05). \<^verbatim>\<open>set_difficulty\<close> with the same arguments gives the values the claim states.
\<close>

theorem AISnake_init_derived_values:
  "map_option (\<lambda>a. (difficulty a, mistake_chance a, decision_delay a))
     (ai (AISnake_init p d pers (-1) sid now)) = Some (1 / 10, 2, 1 / 10)
   \<and> map_option (\<lambda>a. (difficulty a, mistake_chance a, decision_delay a))
     (ai (AISnake_init p d pers 5 sid now)) = Some (1, -4, 1 / 10)
   \<and> (difficulty (set_difficulty (-1) a), mistake_chance (set_difficulty (-1) a),
      decision_delay (set_difficulty (-1) a)) = (1 / 10, 9 / 10, 185 / 1000)
   \<and> (difficulty (set_difficulty 5 a), mistake_chance (set_difficulty 5 a),
      decision_delay (set_difficulty 5 a)) = (1, 0, 5 / 100)"
  by (simp add: AISnake_init_def set_difficulty_def Let_def)

theorem AISnake_init_derived_values_witness:
  "map_option (\<lambda>a. (difficulty a, mistake_chance a, decision_delay a))
     (ai (AISnake_init (SquareCoord 5 5) RIGHT BALANCED (-1) ''ai_0'' 0)) = Some (1 / 10, 2, 1 / 10)"
  using AISnake_init_derived_values [of "SquareCoord 5 5" RIGHT BALANCED "''ai_0''" 0]
  by blast

text \<open>
  C2, as stated, fails: in SCORE_RACE mode the update of the crossing game reports
  the collision of ``a'' with ``b'' and leaves ``a'' active and not eliminated, whereas in
  FREE_FOR_ALL mode the same update eliminates ``a''.
\<close>

theorem score_race_collision_counterexample:
  "(case update runtime_ab (1 / 60) (crossing_game SCORE_RACE) of
      Some (Inr (evs, g')) \<Rightarrow>
        evs = [\<lparr>event_snake_id = ''a'', collision_type = SNAKE,
                event_position = SquareCoord 7 5, other_snake_id = Some ''b''\<rparr>]
        \<and> ''a'' \<in> active_snakes g' \<and> ''a'' \<notin> eliminated_snakes g'
    | _ \<Rightarrow> False)
   \<and> (case update runtime_ab (1 / 60) (crossing_game FREE_FOR_ALL) of
      Some (Inr (evs, g')) \<Rightarrow>
        evs = [\<lparr>event_snake_id = ''a'', collision_type = SNAKE,
                event_position = SquareCoord 7 5, other_snake_id = Some ''b''\<rparr>]
        \<and> ''a'' \<notin> active_snakes g' \<and> ''a'' \<in> eliminated_snakes g'
    | _ \<Rightarrow> False)"
  by code_simp

text \<open>
  C2, amended. In SCORE_RACE mode a snake-vs-snake head collision during \<^verbatim>\<open>update\<close>
  eliminates no snake. For every \<^verbatim>\<open>update\<close> call that returns, the eliminated set after
  the call is the eliminated set before it together with the ids for which the call
  returns a WALL or SELF event, and the active set is the active set before it without
  those ids. So an id without a WALL or SELF event of its own, whether its head hit
  another snake or its body was hit, is active after the call exactly if it was active
  before, and eliminated after the call exactly if it was eliminated before.
\<close>

theorem score_race_update_eliminations:
  assumes "game_mode g = SCORE_RACE" and "update rt dt g = Some (Inr (evs, g'))"
  shows "eliminated_snakes g' = eliminated_snakes g \<union> crashed evs
       \<and> active_snakes g' = active_snakes g - crashed evs
       \<and> (\<forall>sid. sid \<notin> crashed evs \<longrightarrow>
             (sid \<in> active_snakes g' \<longleftrightarrow> sid \<in> active_snakes g)
           \<and> (sid \<in> eliminated_snakes g' \<longleftrightarrow> sid \<in> eliminated_snakes g))"
proof -
  let ?g2 = "update_ai_snakes rt (g\<lparr>game_time := game_time g + dt\<rparr>)"
  from assms(2) obtain evs1 g3 g4 food_events g5 where
    mv: "fold_err move_step ([], ?g2) (set_order rt (active_snakes ?g2)) = Inr (evs1, g3)"
    and uf: "update_food rt 0 g3 = Some g4"
    and cf: "check_food_collisions g4 = Inr (food_events, g5)"
    and evs: "evs = evs1 @ food_events"
    and g': "g' = g5\<lparr>collision_events := collision_events g5 @ evs1 @ food_events\<rparr>"
    by (rule update_Inr_D)
  let ?P = "\<lambda>st. case st of (e, h) \<Rightarrow> game_mode h = SCORE_RACE
      \<and> eliminated_snakes h = eliminated_snakes g \<union> crashed e
      \<and> active_snakes h = active_snakes g - crashed e"
  have "?P (evs1, g3)"
  proof (rule fold_err_invariant [OF mv, where P = ?P])
    show "?P ([], ?g2)"
      using assms(1) by (simp add: update_ai_snakes_def crashed_simps)
  next
    fix s x s'
    assume a: "?P s" and b: "move_step s x = Inr s'"
    obtain e1 h1 where s: "s = (e1, h1)" by (cases s)
    obtain e2 h2 where s': "s' = (e2, h2)" by (cases s')
    from a have m1: "game_mode h1 = SCORE_RACE" by (simp add: s)
    from move_step_only_eliminates [OF b [unfolded s s']] m1
    have m2: "game_mode h2 = SCORE_RACE" by (simp add: only_eliminates_def)
    from score_race_move_step [OF m1 b [unfolded s s']] a m2
    show "?P s'"
      unfolding s s' by (auto simp: crashed_simps)
  qed
  then have 1: "eliminated_snakes g3 = eliminated_snakes g \<union> crashed evs1"
    "active_snakes g3 = active_snakes g - crashed evs1" by simp_all
  from check_food_collisions_frame [OF cf] update_food_frame [OF uf] 1
  have "eliminated_snakes g' = eliminated_snakes g \<union> crashed evs"
    "active_snakes g' = active_snakes g - crashed evs"
    by (simp_all add: evs g' crashed_simps)
  then show ?thesis by blast
qed

theorem score_race_update_eliminations_witness:
  "\<exists>g'. update runtime_ab (1 / 60) (crossing_game SCORE_RACE) =
           Some (Inr ([\<lparr>event_snake_id = ''a'', collision_type = SNAKE,
                         event_position = SquareCoord 7 5, other_snake_id = Some ''b''\<rparr>], g'))
        \<and> eliminated_snakes g' = {} \<and> active_snakes g' = {''a'', ''b''}"
proof -
  have "case update runtime_ab (1 / 60) (crossing_game SCORE_RACE) of
          Some (Inr (evs, g')) \<Rightarrow>
            evs = [\<lparr>event_snake_id = ''a'', collision_type = SNAKE,
                    event_position = SquareCoord 7 5, other_snake_id = Some ''b''\<rparr>]
        | _ \<Rightarrow> False"
    by code_simp
  then obtain g' where u: "update runtime_ab (1 / 60) (crossing_game SCORE_RACE) =
      Some (Inr ([\<lparr>event_snake_id = ''a'', collision_type = SNAKE,
                    event_position = SquareCoord 7 5, other_snake_id = Some ''b''\<rparr>], g'))"
    by (auto split: option.splits sum.splits)
  have m: "game_mode (crossing_game SCORE_RACE) = SCORE_RACE"
    by code_simp
  have e: "eliminated_snakes (crossing_game SCORE_RACE) = {}"
    by code_simp
  have a: "active_snakes (crossing_game SCORE_RACE) = {''a'', ''b''}"
    by code_simp
  from score_race_update_eliminations [OF m u] u show ?thesis
    by (simp add: e a crashed_simps)
qed

text \<open>
  C4, as stated, fails: a start cell that is occupied on the grid is accepted. With
  (5,5) occupied, both \<^verbatim>\<open>add_player_snake\<close> and \<^verbatim>\<open>add_ai_snake\<close> return true for a new id
  and make the snake active.
\<close>

theorem add_snake_occupied_counterexample:
  "is_occupied (occupy (SquareCoord 5 5) grid10) (SquareCoord 5 5)
   \<and> ''p'' \<notin> snake_ids (MultiSnakeGame_init (occupy (SquareCoord 5 5) grid10) FREE_FOR_ALL)
   \<and> fst (add_player_snake ''p'' (SquareCoord 5 5) RIGHT
            (MultiSnakeGame_init (occupy (SquareCoord 5 5) grid10) FREE_FOR_ALL))
   \<and> ''p'' \<in> active_snakes (snd (add_player_snake ''p'' (SquareCoord 5 5) RIGHT
            (MultiSnakeGame_init (occupy (SquareCoord 5 5) grid10) FREE_FOR_ALL)))
   \<and> fst (add_ai_snake ''p'' (SquareCoord 5 5) BALANCED (1 / 2) 0
            (MultiSnakeGame_init (occupy (SquareCoord 5 5) grid10) FREE_FOR_ALL))
   \<and> ''p'' \<in> active_snakes (snd (add_ai_snake ''p'' (SquareCoord 5 5) BALANCED (1 / 2) 0
            (MultiSnakeGame_init (occupy (SquareCoord 5 5) grid10) FREE_FOR_ALL)))"
  by code_simp

text \<open>
  C4, amended. With a start position out of bounds, \<^verbatim>\<open>add_player_snake\<close> and
  \<^verbatim>\<open>add_ai_snake\<close> return false and leave the whole game state unchanged; with a new id
  and a start position in bounds they return true, whether or not the cell is occupied.
\<close>

theorem add_snake_out_of_bounds:
  "(\<not> is_valid_position (grid g) pos \<longrightarrow>
      add_player_snake sid pos d g = (False, g) \<and> add_ai_snake sid pos pers diff now g = (False, g))
   \<and> (sid \<notin> snake_ids g \<and> is_valid_position (grid g) pos \<longrightarrow>
      fst (add_player_snake sid pos d g) \<and> fst (add_ai_snake sid pos pers diff now g))"
  by (simp add: add_player_snake_def add_ai_snake_def Let_def)

theorem add_snake_out_of_bounds_witness:
  "\<not> is_valid_position (grid (MultiSnakeGame_init grid10 FREE_FOR_ALL)) (SquareCoord 10 3)
   \<and> add_player_snake ''p'' (SquareCoord 10 3) UP (MultiSnakeGame_init grid10 FREE_FOR_ALL)
       = (False, MultiSnakeGame_init grid10 FREE_FOR_ALL)
   \<and> add_ai_snake ''p'' (SquareCoord 10 3) CAUTIOUS 1 0 (MultiSnakeGame_init grid10 FREE_FOR_ALL)
       = (False, MultiSnakeGame_init grid10 FREE_FOR_ALL)
   \<and> ''q'' \<notin> snake_ids (MultiSnakeGame_init grid10 FREE_FOR_ALL)
   \<and> is_valid_position (grid (MultiSnakeGame_init grid10 FREE_FOR_ALL)) (SquareCoord 9 3)
   \<and> fst (add_player_snake ''q'' (SquareCoord 9 3) UP (MultiSnakeGame_init grid10 FREE_FOR_ALL))
   \<and> fst (add_ai_snake ''q'' (SquareCoord 9 3) CAUTIOUS 1 0 (MultiSnakeGame_init grid10 FREE_FOR_ALL))"
proof -
  have oob: "\<not> is_valid_position (grid (MultiSnakeGame_init grid10 FREE_FOR_ALL)) (SquareCoord 10 3)"
    by (simp add: MultiSnakeGame_init_def grid10_def is_valid_position_def)
  have inb: "''q'' \<notin> snake_ids (MultiSnakeGame_init grid10 FREE_FOR_ALL)
      \<and> is_valid_position (grid (MultiSnakeGame_init grid10 FREE_FOR_ALL)) (SquareCoord 9 3)"
    by (simp add: MultiSnakeGame_init_def grid10_def is_valid_position_def snake_ids_def)
  show ?thesis
    using oob inb
      add_snake_out_of_bounds [of "MultiSnakeGame_init grid10 FREE_FOR_ALL" "SquareCoord 10 3" "''p''" UP CAUTIOUS 1 0]
      add_snake_out_of_bounds [of "MultiSnakeGame_init grid10 FREE_FOR_ALL" "SquareCoord 9 3" "''q''" UP CAUTIOUS 1 0]
    by simp
qed

text \<open>
  C6, as stated, fails: with the single obstacle (0,0) the danger list contains (-1,-1),
  which lies outside every grid.
\<close>

theorem danger_positions_out_of_bounds_counterexample:
  "SquareCoord (-1) (-1) \<in> set (get_danger_positions [SquareCoord 0 0])
   \<and> \<not> is_valid_position grid10 (SquareCoord (-1) (-1))"
  by (simp add: get_danger_positions_def is_valid_position_def grid10_def)

text \<open>
  C6, amended. A cell is in the danger list exactly when it is not an obstacle and is
  adjacent, diagonals included, to some obstacle cell; the cell may lie outside the grid.
\<close>

theorem danger_positions_adjacent:
  "d \<in> set (get_danger_positions obstacles) \<longleftrightarrow>
     d \<notin> set obstacles \<and> (\<exists>ob \<in> set obstacles. \<bar>cx d - cx ob\<bar> \<le> 1 \<and> \<bar>cy d - cy ob\<bar> \<le> 1)"
proof -
  have "d \<in> set (get_danger_positions obstacles) \<longleftrightarrow>
     (\<exists>ob \<in> set obstacles. d \<notin> set obstacles \<and> \<bar>cx d - cx ob\<bar> \<le> 1 \<and> \<bar>cy d - cy ob\<bar> \<le> 1)"
    unfolding get_danger_positions_def set_concat set_map
    by (simp only: UN_iff bex_simps image_iff around_mem)
  then show ?thesis by (simp only: bex_simps)
qed

theorem danger_positions_adjacent_witness:
  "SquareCoord 4 6 \<in> set (get_danger_positions [SquareCoord 5 5, SquareCoord 4 5])
   \<and> SquareCoord 4 5 \<notin> set (get_danger_positions [SquareCoord 5 5, SquareCoord 4 5])"
  using danger_positions_adjacent [of "SquareCoord 4 6" "[SquareCoord 5 5, SquareCoord 4 5]"]
    danger_positions_adjacent [of "SquareCoord 4 5" "[SquareCoord 5 5, SquareCoord 4 5]"]
  by simp

text \<open>
  C5. On a new game over a 2 by 2 grid \<^verbatim>\<open>update\<close> does not return, whatever the random
  draws are: the food loop needs five foods, the grid has four cells, and once no empty
  cell is left \<^verbatim>\<open>spawn_food\<close> yields nothing and the loop has no other exit.
\<close>

theorem update_does_not_return:
  "update (runtime_ab\<lparr>random_draw := draws, random_choice := choices\<rparr>) dt
     (MultiSnakeGame_init \<lparr>width = 2, height = 2, occupied_cells = {}\<rparr> m) = None"
proof -
  let ?rt = "runtime_ab\<lparr>random_draw := draws, random_choice := choices\<rparr>"
  let ?g = "MultiSnakeGame_init \<lparr>width = 2, height = 2, occupied_cells = {}\<rparr> m"
  let ?g2 = "update_ai_snakes ?rt (?g\<lparr>game_time := game_time ?g + dt\<rparr>)"
  have cells: "card (set (empty_cells \<lparr>width = 2, height = 2, occupied_cells = {}\<rparr>)) = 4"
    by code_simp
  have moves: "fold_err move_step ([], ?g2) (set_order ?rt (active_snakes ?g2)) = Inr ([], ?g2)"
    by (simp add: update_ai_snakes_def MultiSnakeGame_init_def runtime_ab_def)
  have "int (length (food_items ?g2)) + int (card (set (empty_cells (grid ?g2)))) < max_food_items ?g2"
    by (simp add: update_ai_snakes_def MultiSnakeGame_init_def cells)
  then have "update_food ?rt 0 ?g2 = None"
    by (rule update_food_diverges)
  then show ?thesis
    unfolding update_def Let_def moves by simp
qed

theorem update_does_not_return_witness:
  "update runtime_ab (1 / 60) (MultiSnakeGame_init \<lparr>width = 2, height = 2, occupied_cells = {}\<rparr> FREE_FOR_ALL) = None"
  using update_does_not_return [of "\<lambda>n. 0" "\<lambda>n. 0" "1 / 60" FREE_FOR_ALL]
  by (simp add: runtime_ab_def)

text \<open>
  C9. In every state reached from a new game by any sequence of \<^verbatim>\<open>add_player_snake\<close>,
  \<^verbatim>\<open>add_ai_snake\<close>, \<^verbatim>\<open>remove_snake\<close> and returning \<^verbatim>\<open>update\<close> calls, the active and the
  eliminated set are disjoint, and an id of the eliminated set is, after any further
  sequence of these operations, still in the eliminated set and not in the active set.
  An \<^verbatim>\<open>update\<close> call in such a state does not raise when the runtime iterates the active
  set over its own elements (\<open>update_never_raises\<close>), so no state is left half-updated.
\<close>

theorem elimination_one_way:
  assumes "game_step\<^sup>*\<^sup>* (MultiSnakeGame_init gr m) g"
  shows "active_snakes g \<inter> eliminated_snakes g = {}
       \<and> (\<forall>g' sid. game_step\<^sup>*\<^sup>* g g' \<and> sid \<in> eliminated_snakes g \<longrightarrow>
             sid \<in> eliminated_snakes g' \<and> sid \<notin> active_snakes g')"
proof -
  from game_steps_sets [OF assms] init_consistent have c: "sets_consistent g" by blast
  have 1: "active_snakes g \<inter> eliminated_snakes g = {}"
    using c by (simp add: sets_consistent_def)
  have 2: "sid \<in> eliminated_snakes g' \<and> sid \<notin> active_snakes g'"
    if a: "game_step\<^sup>*\<^sup>* g g' \<and> sid \<in> eliminated_snakes g" for g' sid
  proof -
    from a game_steps_sets [of g g'] c have "sets_consistent g'" "sid \<in> eliminated_snakes g'"
      by blast+
    then show ?thesis
      by (auto simp: sets_consistent_def)
  qed
  from 1 2 show ?thesis by blast
qed

theorem elimination_one_way_witness:
  "\<exists>g. game_step\<^sup>*\<^sup>* (MultiSnakeGame_init grid10 FREE_FOR_ALL) g
       \<and> ''a'' \<in> eliminated_snakes g
       \<and> active_snakes g \<inter> eliminated_snakes g = {}
       \<and> ''a'' \<in> eliminated_snakes (snd (add_player_snake ''a'' (SquareCoord 1 1) RIGHT g))
       \<and> ''a'' \<notin> active_snakes (snd (add_player_snake ''a'' (SquareCoord 1 1) RIGHT g))"
proof -
  have "case update runtime_ab (1 / 60) (crossing_game FREE_FOR_ALL) of
          Some (Inr (evs, g')) \<Rightarrow> ''a'' \<in> eliminated_snakes g'
        | _ \<Rightarrow> False"
    by code_simp
  then obtain evs g where u: "update runtime_ab (1 / 60) (crossing_game FREE_FOR_ALL) = Some (Inr (evs, g))"
    and el: "''a'' \<in> eliminated_snakes g"
    by (auto split: option.splits sum.splits)
  have "game_step\<^sup>*\<^sup>* (MultiSnakeGame_init grid10 FREE_FOR_ALL) (crossing_game FREE_FOR_ALL)"
    unfolding crossing_game_def
    by (rule rtranclp.rtrancl_into_rtrancl, rule r_into_rtranclp, rule step_add_player,
        rule step_add_player)
  then have r: "game_step\<^sup>*\<^sup>* (MultiSnakeGame_init grid10 FREE_FOR_ALL) g"
    using step_update [OF u] by (rule rtranclp.rtrancl_into_rtrancl)
  have s: "game_step\<^sup>*\<^sup>* g (snd (add_player_snake ''a'' (SquareCoord 1 1) RIGHT g))"
    by (rule r_into_rtranclp, rule step_add_player)
  from elimination_one_way [OF r] el s r show ?thesis
    by blast
qed

text \<open>
  C10. After \<^verbatim>\<open>remove_snake\<close> has returned true for an id, the id stays a key of the
  snakes dictionary through any sequence of \<^verbatim>\<open>add_player_snake\<close>, \<^verbatim>\<open>add_ai_snake\<close>,
  \<^verbatim>\<open>remove_snake\<close> and returning \<^verbatim>\<open>update\<close> calls, so that \<^verbatim>\<open>add_player_snake\<close> and
  \<^verbatim>\<open>add_ai_snake\<close> with that id return false, for any start position, and change nothing.
\<close>

theorem removed_id_never_reused:
  assumes "fst (remove_snake sid g)"
    and "game_step\<^sup>*\<^sup>* (snd (remove_snake sid g)) g'"
  shows "sid \<in> snake_ids g'
       \<and> add_player_snake sid start_position start_direction g' = (False, g')
       \<and> add_ai_snake sid start_position pers diff now g' = (False, g')"
proof -
  from assms(1) have "sid \<in> snake_ids g"
    by (auto simp: remove_snake_def split: if_splits)
  then have "sid \<in> snake_ids (snd (remove_snake sid g))"
    using remove_snake_sets [of sid g] by simp
  with game_steps_sets [OF assms(2)] have "sid \<in> snake_ids g'" by blast
  then show ?thesis
    by (simp add: add_player_snake_def add_ai_snake_def)
qed

theorem removed_id_never_reused_witness:
  "fst (remove_snake ''a'' (crossing_game FREE_FOR_ALL))
   \<and> add_player_snake ''a'' (SquareCoord 1 1) UP
       (snd (add_ai_snake ''c'' (SquareCoord 2 2) RANDOM (1 / 2) 0
          (snd (remove_snake ''a'' (crossing_game FREE_FOR_ALL)))))
     = (False, snd (add_ai_snake ''c'' (SquareCoord 2 2) RANDOM (1 / 2) 0
          (snd (remove_snake ''a'' (crossing_game FREE_FOR_ALL)))))"
proof -
  have f: "fst (remove_snake ''a'' (crossing_game FREE_FOR_ALL))"
    by code_simp
  have s: "game_step\<^sup>*\<^sup>* (snd (remove_snake ''a'' (crossing_game FREE_FOR_ALL)))
      (snd (add_ai_snake ''c'' (SquareCoord 2 2) RANDOM (1 / 2) 0
          (snd (remove_snake ''a'' (crossing_game FREE_FOR_ALL)))))"
    by (rule r_into_rtranclp, rule step_add_ai)
  from removed_id_never_reused [OF f s, of "SquareCoord 1 1" UP] f show ?thesis
    by blast
qed



end
